theory Spec2Isabelle
  imports Complex_Main "HOL-Library.Char_ord" "HOL-Library.List_Lexorder"
begin

section \<open>Calendar dates\<close>

text \<open>
  The script of \<^verbatim>\<open>Project_1.py\<close> hands every step to pandas and matplotlib. The
  model keeps the script's sequence of calls and gives each call the meaning it has on
  the values the script passes.

  Amounts are exact rationals. pandas holds a column of whole numbers as 64-bit integers,
  whose sums wrap around, and any other numeric column as binary floating point, whose
  sums round. Neither is modelled: every statement about a sum is a statement under exact
  arithmetic.

  A date is a calendar day. \<open>toordinal\<close> is the proleptic Gregorian day number, computed
  the way Python's \<^verbatim>\<open>date.toordinal\<close> computes it.
\<close>

record date =
  year :: nat
  month :: nat
  day :: nat

definition is_leap :: "nat \<Rightarrow> bool" where
  "is_leap y = (y mod 4 = 0 \<and> (y mod 100 \<noteq> 0 \<or> y mod 400 = 0))"

definition month_lengths :: "nat list" where
  "month_lengths = [31, 28, 31, 30, 31, 30, 31, 31, 30, 31, 30, 31]"

definition days_in_month :: "nat \<Rightarrow> nat \<Rightarrow> nat" where
  "days_in_month y m = (if m = 2 \<and> is_leap y then 29 else month_lengths ! (m - 1))"

definition days_before_year :: "nat \<Rightarrow> int" where
  "days_before_year y =
     (let p = int y - 1 in p * 365 + p div 4 - p div 100 + p div 400)"

definition days_before_month :: "nat \<Rightarrow> nat \<Rightarrow> int" where
  "days_before_month y m =
     int (sum_list (take (m - 1) month_lengths)) + (if 2 < m \<and> is_leap y then 1 else 0)"

definition toordinal :: "date \<Rightarrow> int" where
  "toordinal d = days_before_year (year d) + days_before_month (year d) (month d) + int (day d)"

text \<open>The calendar day after a date.\<close>

definition next_day :: "date \<Rightarrow> date" where
  "next_day d =
     (if day d < days_in_month (year d) (month d) then d\<lparr>day := day d + 1\<rparr>
      else if month d < 12 then \<lparr>year = year d, month = month d + 1, day = 1\<rparr>
      else \<lparr>year = year d + 1, month = 1, day = 1\<rparr>)"

text \<open>
  The month and the quarter a date falls in, as a running number: \<open>resample('M')\<close> and
  \<open>resample('Q')\<close> put a row into the bucket of its calendar month and calendar quarter.
\<close>

definition month_index :: "date \<Rightarrow> int" where
  "month_index d = int (year d) * 12 + (int (month d) - 1)"

definition quarter_index :: "date \<Rightarrow> int" where
  "quarter_index d = int (year d) * 4 + (int (month d) - 1) div 3"

text \<open>
  A timestamp is a calendar date that exists and lies inside the range of nanosecond
  timestamps, 1677-09-22 to 2262-04-11 for whole days.
\<close>

definition date_le :: "date \<Rightarrow> date \<Rightarrow> bool" where
  "date_le a b =
     (year a < year b \<or>
      (year a = year b \<and> (month a < month b \<or> (month a = month b \<and> day a \<le> day b))))"

definition valid_timestamp :: "date \<Rightarrow> bool" where
  "valid_timestamp d =
     (1 \<le> month d \<and> month d \<le> 12 \<and> 1 \<le> day d \<and> day d \<le> days_in_month (year d) (month d) \<and>
      date_le \<lparr>year = 1677, month = 9, day = 22\<rparr> d \<and>
      date_le d \<lparr>year = 2262, month = 4, day = 11\<rparr>)"

section \<open>The table read from the CSV file\<close>

text \<open>
  One line of the CSV file (line 18). The \<open>Date\<close> cell is missing (empty, or a text that
  \<open>pd.read_csv\<close> reads as a missing value), holds a date, or holds another text. The
  \<open>Product_Category\<close> cell is its text. The \<open>Total_Sales_INR\<close> cell is a number, or
  \<open>None\<close> when \<open>pd.to_numeric(errors='coerce')\<close> turns it into NaN (a missing cell or a
  text that is no number).
\<close>

datatype date_cell = Missing_date | Date_text date | Other_text

record csv_row =
  csv_Date :: date_cell
  csv_Product_Category :: string
  csv_Total_Sales_INR :: "rat option"

text \<open>
  \<open>pd.read_csv\<close> reads an empty cell and each of these texts as a missing value.
\<close>

definition na_values :: "string list" where
  "na_values =
     ['''', ''#N/A'', ''#N/A N/A'', ''#NA'', ''-1.#IND'', ''-1.#QNAN'', ''-NaN'', ''-nan'',
      ''1.#IND'', ''1.#QNAN'', ''<NA>'', ''N/A'', ''NA'', ''NULL'', ''NaN'', ''None'', ''n/a'',
      ''nan'', ''null'']"

definition read_category :: "string \<Rightarrow> string option" where
  "read_category t = (if t \<in> set na_values then None else Some t)"

text \<open>
  A row of the frame after the preparation of lines 24 to 32. A row whose \<open>Date\<close> cell was
  missing has the date NaT, here \<open>None\<close>.
\<close>

record row =
  Date :: "date option"
  Product_Category :: "string option"
  Total_Sales_INR :: rat

datatype fault = ParserError | DateParseError | ResampleError | PlotError

text \<open>
  Line 24: \<open>pd.to_datetime\<close> turns a missing cell into NaT and raises on a text that is
  no date, on a date that does not exist and on a date outside the range of timestamps.
\<close>

definition to_datetime :: "date_cell \<Rightarrow> fault + date option" where
  "to_datetime c =
     (case c of
        Missing_date \<Rightarrow> Inr None
      | Date_text d \<Rightarrow> if valid_timestamp d then Inr (Some d) else Inl DateParseError
      | Other_text \<Rightarrow> Inl DateParseError)"

text \<open>The whole column is converted; the first cell that cannot be converted raises.\<close>

fun parse_dates :: "csv_row list \<Rightarrow> fault + (date option \<times> csv_row) list" where
  "parse_dates [] = Inr []"
| "parse_dates (c # cs) =
     (case to_datetime (csv_Date c) of
        Inl e \<Rightarrow> Inl e
      | Inr d \<Rightarrow> (case parse_dates cs of Inl e \<Rightarrow> Inl e | Inr ds \<Rightarrow> Inr ((d, c) # ds)))"

text \<open>
  Lines 26 and 29: coerce the amount, then drop the rows whose amount is missing. A row
  without a date or without a category stays.
\<close>

definition dropna :: "(date option \<times> csv_row) list \<Rightarrow> row list" where
  "dropna xs =
     List.map_filter
       (\<lambda>(d, c). map_option
          (\<lambda>a. \<lparr>Date = d, Product_Category = read_category (csv_Product_Category c),
                 Total_Sales_INR = a\<rparr>)
          (csv_Total_Sales_INR c))
       xs"

definition prepare :: "csv_row list \<Rightarrow> fault + row list" where
  "prepare cells = (case parse_dates cells of Inl e \<Rightarrow> Inl e | Inr xs \<Rightarrow> Inr (dropna xs))"

section \<open>Aggregation\<close>

text \<open>
  \<open>resample(freq).sum()\<close>, when the call returns: the rows without a date are left out;
  there is one bucket for every period from the period of the earliest dated row to the
  period of the latest dated row, in ascending order, each holding the sum of the amounts
  of its rows; the sum of an empty bucket is 0. The aliases \<open>'D'\<close>, \<open>'M'\<close> and \<open>'Q'\<close> are
  the calendar day, the month (labelled by its last day) and the quarter ending in March,
  June, September or December, as the pandas versions that accept these aliases read
  them. A bucket is named by the running number of its period.

  The call does not always return: pandas raises when an edge of the first or the last
  bucket lies outside the range of timestamps, which happens for dates near the ends of
  that range. Whether the three calls of lines 37 to 43 return is left to the parameter
  \<open>resamples\<close> of the run below; the functions here give the result of a call that
  returns.
\<close>

definition dated_keys :: "(date \<Rightarrow> int) \<Rightarrow> row list \<Rightarrow> int list" where
  "dated_keys key df = List.map_filter (\<lambda>r. map_option key (Date r)) df"

definition bucket_sum :: "(date \<Rightarrow> int) \<Rightarrow> row list \<Rightarrow> int \<Rightarrow> rat" where
  "bucket_sum key df b =
     sum_list (map Total_Sales_INR (filter (\<lambda>r. map_option key (Date r) = Some b) df))"

definition resample_sum :: "(date \<Rightarrow> int) \<Rightarrow> row list \<Rightarrow> (int \<times> rat) list" where
  "resample_sum key df =
     (case dated_keys key df of
        [] \<Rightarrow> []
      | k # ks \<Rightarrow> map (\<lambda>b. (b, bucket_sum key df b)) [fold min ks k .. fold max ks k])"

definition daily_sales :: "row list \<Rightarrow> (int \<times> rat) list" where
  "daily_sales df = resample_sum toordinal df"

definition monthly_sales :: "row list \<Rightarrow> (int \<times> rat) list" where
  "monthly_sales df = resample_sum month_index df"

definition quarterly_sales :: "row list \<Rightarrow> (int \<times> rat) list" where
  "quarterly_sales df = resample_sum quarter_index df"

definition grand_total :: "row list \<Rightarrow> rat" where
  "grand_total df = sum_list (map Total_Sales_INR df)"

text \<open>
  Line 104. \<open>groupby\<close> leaves out the rows whose key is NA and lists the groups in
  ascending order of the key; \<open>sort_values(ascending=False)\<close> then orders the groups by
  descending sum. Groups of equal sum keep the order of the keys here; the script does
  not ask pandas for a stable sort, so nothing below depends on that order.
\<close>

definition group_keys :: "row list \<Rightarrow> string list" where
  "group_keys df = sort (remdups (List.map_filter Product_Category df))"

definition group_sum :: "row list \<Rightarrow> string \<Rightarrow> rat" where
  "group_sum df c =
     sum_list (map Total_Sales_INR (filter (\<lambda>r. Product_Category r = Some c) df))"

definition groupby_sum :: "row list \<Rightarrow> (string \<times> rat) list" where
  "groupby_sum df = map (\<lambda>c. (c, group_sum df c)) (group_keys df)"

definition sort_values_desc :: "(string \<times> rat) list \<Rightarrow> (string \<times> rat) list" where
  "sort_values_desc xs = sort_key (\<lambda>p. - snd p) xs"

definition category_sales :: "row list \<Rightarrow> (string \<times> rat) list" where
  "category_sales df = sort_values_desc (groupby_sum df)"

text \<open>
  Line 107 divides floating-point numbers: a division by zero raises nothing and gives
  an infinity or NaN. The quotient of two finite numbers is taken exactly.
\<close>

datatype fval = Finite rat | PosInf | NegInf | NaN

definition share :: "rat \<Rightarrow> rat \<Rightarrow> fval" where
  "share s t =
     (if t = 0 then (if s = 0 then NaN else if 0 < s then PosInf else NegInf)
      else Finite (s / t * 100))"

definition category_share :: "(string \<times> rat) list \<Rightarrow> (string \<times> fval) list" where
  "category_share cs = map (\<lambda>p. (fst p, share (snd p) (sum_list (map snd cs)))) cs"

section \<open>Labels\<close>

text \<open>Decimal digits of a natural number, and the same padded with zeros to a width.\<close>

fun digits :: "nat \<Rightarrow> string" where
  "digits n = (if n < 10 then [''0123456789'' ! n] else digits (n div 10) @ [''0123456789'' ! (n mod 10)])"

declare digits.simps [simp del]

definition zero_pad :: "nat \<Rightarrow> nat \<Rightarrow> string" where
  "zero_pad w n = replicate (w - length (digits n)) (CHR ''0'') @ digits n"

text \<open>
  Line 72: \<open>strftime('%Y-%m')\<close> of the month-end timestamp of a monthly bucket.
  Line 88: \<open>to_period('Q').astype(str)\<close> of the quarter-end timestamp of a quarterly
  bucket; pandas prints a quarterly period as the year, the letter Q and the quarter.
\<close>

definition month_label :: "int \<Rightarrow> string" where
  "month_label k = zero_pad 4 (nat (k div 12)) @ ''-'' @ zero_pad 2 (nat (k mod 12) + 1)"

definition quarter_label :: "int \<Rightarrow> string" where
  "quarter_label k = digits (nat (k div 4)) @ ''Q'' @ digits (nat (k mod 4) + 1)"

definition monthly_labelled :: "row list \<Rightarrow> (string \<times> rat) list" where
  "monthly_labelled df = map (\<lambda>p. (month_label (fst p), snd p)) (monthly_sales df)"

definition quarterly_labelled :: "row list \<Rightarrow> (string \<times> rat) list" where
  "quarterly_labelled df = map (\<lambda>p. (quarter_label (fst p), snd p)) (quarterly_sales df)"



fun finite_values :: "fval list \<Rightarrow> rat list option" where
  "finite_values [] = Some []"
| "finite_values (Finite x # vs) = map_option ((#) x) (finite_values vs)"
| "finite_values (_ # vs) = None"


section \<open>Charts, files and the run\<close>

text \<open>
  A chart is the title and the data the script passes to the plotting call. The pixels of
  the image are the plotting library's.
\<close>

datatype chart =
    Line_days string "(int \<times> rat) list"
  | Line_labels string "(string \<times> rat) list"
  | Bar string "(string \<times> rat) list"
  | Pie string "(string \<times> fval) list"

datatype disk_file = Csv "csv_row list" | Png chart | Other

type_synonym filesystem = "string \<rightharpoonup> disk_file"

datatype exit_status = Returned | SysExit nat | Uncaught fault

record outcome =
  stdout :: "string list"
  written :: "string list"
  disk :: filesystem
  status :: exit_status

text \<open>The five blocks of lines 56 to 147, each ending in one \<open>plt.savefig\<close>.\<close>

definition charts :: "row list \<Rightarrow> (string \<times> chart) list" where
  "charts df =
     [(''daily_sales_line_chart.png'',
         Line_days ''Daily Total Sales (INR) Over Time'' (daily_sales df)),
      (''monthly_sales_line_chart.png'',
         Line_labels ''Monthly Total Sales (INR)'' (monthly_labelled df)),
      (''quarterly_sales_line_chart.png'',
         Line_labels ''Quarterly Total Sales (INR)'' (quarterly_labelled df)),
      (''category_sales_bar_chart.png'',
         Bar ''Total Sales (INR) by Product Category'' (category_sales df)),
      (''category_sales_pie_chart.png'',
         Pie ''Total Sales Share by Product Category'' (category_share (category_sales df)))]"

text \<open>
  Whether matplotlib draws and saves a chart or raises is the library's decision; the
  parameter \<open>renders\<close> stands for it. A block that raises ends the run: the files of
  the blocks before it stay, the later ones are never written. In the same way the
  parameter \<open>resamples\<close> says whether the resampling of lines 37 to 43 returns on a
  frame; when it raises, the run ends before the first chart.
\<close>

fun save_charts :: "(chart \<Rightarrow> bool) \<Rightarrow> (string \<times> chart) list \<Rightarrow> outcome \<Rightarrow> outcome" where
  "save_charts renders [] st = st"
| "save_charts renders (fc # rest) st =
     (if renders (snd fc)
      then save_charts renders rest
             (st\<lparr>stdout := stdout st @ [''Chart saved: '' @ fst fc],
                 written := written st @ [fst fc],
                 disk := (disk st)(fst fc \<mapsto> Png (snd fc))\<rparr>)
      else st\<lparr>status := Uncaught PlotError\<rparr>)"

definition csv_name :: string where
  "csv_name = ''amazon_sales_2025_INR.csv''"

definition not_found_message :: "string \<Rightarrow> string" where
  "not_found_message file_path = ''Error: The file '' @ [CHR 0x27] @ file_path @ [CHR 0x27] @ '' was not found.''"

definition run_sales_analysis ::
  "(row list \<Rightarrow> bool) \<Rightarrow> (chart \<Rightarrow> bool) \<Rightarrow> string \<Rightarrow> filesystem \<Rightarrow> outcome" where
  "run_sales_analysis resamples renders file_path fs =
     (let start = \<lparr>stdout = [], written = [], disk = fs, status = Returned\<rparr>
      in case fs csv_name of
           None \<Rightarrow> start\<lparr>stdout := [not_found_message file_path], status := SysExit 1\<rparr>
         | Some (Csv cells) \<Rightarrow>
             (case prepare cells of
                Inl e \<Rightarrow> start\<lparr>status := Uncaught e\<rparr>
              | Inr df \<Rightarrow>
                  if resamples df then save_charts renders (charts df) start
                  else start\<lparr>status := Uncaught ResampleError\<rparr>)
         | Some _ \<Rightarrow> start\<lparr>status := Uncaught ParserError\<rparr>)"

definition chart_files :: "string list" where
  "chart_files =
     [''daily_sales_line_chart.png'', ''monthly_sales_line_chart.png'',
      ''quarterly_sales_line_chart.png'', ''category_sales_bar_chart.png'',
      ''category_sales_pie_chart.png'']"

section \<open>What is stated about the results\<close>

text \<open>
  The texts YYYY-MM and YYYYQn of a year and a month or a quarter, written digit by
  digit, and the shapes of such texts.
\<close>

definition digit_char :: "nat \<Rightarrow> char" where
  "digit_char n = ''0123456789'' ! n"

definition year_month_text :: "nat \<Rightarrow> nat \<Rightarrow> string" where
  "year_month_text y m =
     [digit_char (y div 1000 mod 10), digit_char (y div 100 mod 10),
      digit_char (y div 10 mod 10), digit_char (y mod 10), CHR ''-'',
      digit_char (m div 10 mod 10), digit_char (m mod 10)]"

definition year_quarter_text :: "nat \<Rightarrow> nat \<Rightarrow> string" where
  "year_quarter_text y q =
     [digit_char (y div 1000 mod 10), digit_char (y div 100 mod 10),
      digit_char (y div 10 mod 10), digit_char (y mod 10), CHR ''Q'', digit_char (q mod 10)]"

definition is_digit :: "char \<Rightarrow> bool" where
  "is_digit c = (c \<in> set ''0123456789'')"

definition is_month_label :: "string \<Rightarrow> bool" where
  "is_month_label s =
     (length s = 7 \<and> list_all is_digit (take 4 s) \<and> s ! 4 = CHR ''-'' \<and>
      drop 5 s \<in> set [''01'', ''02'', ''03'', ''04'', ''05'', ''06'', ''07'', ''08'', ''09'',
                        ''10'', ''11'', ''12''])"

definition is_quarter_label :: "string \<Rightarrow> bool" where
  "is_quarter_label s =
     (length s = 6 \<and> list_all is_digit (take 4 s) \<and> s ! 4 = CHR ''Q'' \<and> s ! 5 \<in> set ''1234'')"

text \<open>The sum of the amounts of the rows dated in a month, and in a quarter, of a year.\<close>

definition month_total :: "row list \<Rightarrow> nat \<Rightarrow> nat \<Rightarrow> rat" where
  "month_total df y m =
     sum_list (map Total_Sales_INR
       (filter (\<lambda>r. case Date r of None \<Rightarrow> False | Some d \<Rightarrow> year d = y \<and> month d = m) df))"

definition quarter_of :: "date \<Rightarrow> nat" where
  "quarter_of d = (month d - 1) div 3 + 1"

definition quarter_total :: "row list \<Rightarrow> nat \<Rightarrow> nat \<Rightarrow> rat" where
  "quarter_total df y q =
     sum_list (map Total_Sales_INR
       (filter (\<lambda>r. case Date r of None \<Rightarrow> False | Some d \<Rightarrow> year d = y \<and> quarter_of d = q) df))"


definition categorised_total :: "row list \<Rightarrow> rat" where
  "categorised_total df =
     sum_list (map Total_Sales_INR (filter (\<lambda>r. Product_Category r \<noteq> None) df))"

text \<open>A line of the file whose amount is a number.\<close>

definition has_amount :: "csv_row \<Rightarrow> bool" where
  "has_amount c = (csv_Total_Sales_INR c \<noteq> None)"

text \<open>
  The sum of the shares, when every share is a finite number; \<open>None\<close> when one of them
  is NaN or an infinity.
\<close>

definition shares_total :: "(string \<times> fval) list \<Rightarrow> rat option" where
  "shares_total shares = map_option sum_list (finite_values (map snd shares))"

text \<open>
  An aggregate is zero-filled over a frame when its buckets are exactly the periods from
  the earliest to the latest period of the dated rows of the frame, in ascending order,
  each bucket holds the sum of the amounts of the rows of its period, and a bucket
  without rows holds 0.
\<close>

definition zero_filled :: "(date \<Rightarrow> int) \<Rightarrow> row list \<Rightarrow> (int \<times> rat) list \<Rightarrow> bool" where
  "zero_filled key df agg =
     (map fst agg = [Min (set (dated_keys key df)) .. Max (set (dated_keys key df))] \<and>
      list_all
        (\<lambda>p. snd p =
                sum_list (map Total_Sales_INR
                  (filter (\<lambda>r. map_option key (Date r) = Some (fst p)) df)) \<and>
             (list_all (\<lambda>k. k \<noteq> fst p) (dated_keys key df) \<longrightarrow> snd p = 0))
        agg)"

section \<open>Fixtures\<close>

text \<open>The one-line file of the specification: 2025-01-15, amount 1000.\<close>

definition one_row_csv :: "csv_row list" where
  "one_row_csv =
     [\<lparr>csv_Date = Date_text \<lparr>year = 2025, month = 1, day = 15\<rparr>,
       csv_Product_Category = ''A'', csv_Total_Sales_INR = Some 1000\<rparr>]"

definition one_row_frame :: "row list" where
  "one_row_frame =
     [\<lparr>Date = Some \<lparr>year = 2025, month = 1, day = 15\<rparr>,
       Product_Category = Some ''A'', Total_Sales_INR = 1000\<rparr>]"

definition one_row_disk :: filesystem where
  "one_row_disk = [csv_name \<mapsto> Csv one_row_csv]"





definition two_category_frame :: "row list" where
  "two_category_frame =
     [\<lparr>Date = Some \<lparr>year = 2025, month = 3, day = 2\<rparr>,
       Product_Category = Some ''B'', Total_Sales_INR = 400\<rparr>,
      \<lparr>Date = Some \<lparr>year = 2025, month = 1, day = 15\<rparr>,
       Product_Category = Some ''A'', Total_Sales_INR = 250\<rparr>,
      \<lparr>Date = Some \<lparr>year = 2025, month = 2, day = 10\<rparr>,
       Product_Category = Some ''A'', Total_Sales_INR = 350\<rparr>]"

text \<open>A single line of amount 0.\<close>

definition zero_total_csv :: "csv_row list" where
  "zero_total_csv =
     [\<lparr>csv_Date = Date_text \<lparr>year = 2025, month = 1, day = 15\<rparr>,
       csv_Product_Category = ''A'', csv_Total_Sales_INR = Some 0\<rparr>]"

definition zero_total_frame :: "row list" where
  "zero_total_frame =
     [\<lparr>Date = Some \<lparr>year = 2025, month = 1, day = 15\<rparr>,
       Product_Category = Some ''A'', Total_Sales_INR = 0\<rparr>]"


text \<open>Two rows three days apart, and two rows six months apart.\<close>

definition gap_days_frame :: "row list" where
  "gap_days_frame =
     [\<lparr>Date = Some \<lparr>year = 2025, month = 2, day = 2\<rparr>,
       Product_Category = Some ''A'', Total_Sales_INR = 50\<rparr>,
      \<lparr>Date = Some \<lparr>year = 2025, month = 1, day = 30\<rparr>,
       Product_Category = Some ''A'', Total_Sales_INR = 100\<rparr>]"

definition gap_months_frame :: "row list" where
  "gap_months_frame =
     [\<lparr>Date = Some \<lparr>year = 2025, month = 1, day = 15\<rparr>,
       Product_Category = Some ''A'', Total_Sales_INR = 100\<rparr>,
      \<lparr>Date = Some \<lparr>year = 2025, month = 7, day = 4\<rparr>,
       Product_Category = Some ''B'', Total_Sales_INR = 50\<rparr>]"




text \<open>Libraries that never raise.\<close>

definition always_resamples :: "row list \<Rightarrow> bool" where
  "always_resamples df = True"

definition always_renders :: "chart \<Rightarrow> bool" where
  "always_renders ch = True"

section \<open>The prepared frame\<close>

lemma dropna_Nil: "dropna [] = []"
  by (simp add: dropna_def map_filter_simps)

lemma dropna_Cons:
  "dropna (x # xs) =
     (case csv_Total_Sales_INR (snd x) of
        None \<Rightarrow> dropna xs
      | Some a \<Rightarrow>
          \<lparr>Date = fst x, Product_Category = read_category (csv_Product_Category (snd x)),
           Total_Sales_INR = a\<rparr> # dropna xs)"
  by (cases x) (simp add: dropna_def map_filter_simps split: option.splits)



lemma parse_dates_valid:
  "parse_dates cells = Inr xs \<Longrightarrow>
     list_all (\<lambda>x. case fst x of None \<Rightarrow> True | Some d \<Rightarrow> valid_timestamp d) xs"
  by (induction cells arbitrary: xs)
     (auto simp: to_datetime_def split: sum.splits date_cell.splits if_splits)

lemma parse_dates_missing:
  "parse_dates cells = Inr xs \<Longrightarrow>
     map (\<lambda>x. fst x = None) xs = map (\<lambda>c. csv_Date c = Missing_date) cells"
  by (induction cells arbitrary: xs)
     (auto simp: to_datetime_def split: sum.splits date_cell.splits if_splits)




lemma dropna_dates:
  "map Date (dropna xs) = map fst (filter (\<lambda>x. has_amount (snd x)) xs)"
  by (induction xs) (auto simp: dropna_Nil dropna_Cons has_amount_def split: option.splits)

lemma prepare_cases:
  assumes "prepare cells = Inr df"
  obtains xs where "parse_dates cells = Inr xs" "df = dropna xs"
  using assms by (auto simp: prepare_def split: sum.splits)



lemma filter_map_snd:
  "map snd (filter (\<lambda>x. P (snd x)) xs) = filter P (map snd xs)"
  by (induction xs) auto



lemma prepare_valid:
  assumes "prepare cells = Inr df" "r \<in> set df" "Date r = Some d"
  shows "valid_timestamp d"
proof -
  from assms(1) obtain xs where xs: "parse_dates cells = Inr xs" "df = dropna xs"
    by (rule prepare_cases)
  from assms(2) have "Date r \<in> set (map Date df)" by simp
  then have "Date r \<in> fst ` set xs"
    unfolding xs(2) dropna_dates by auto
  with assms(3) parse_dates_valid [OF xs(1)] show ?thesis
    by (force simp: list_all_iff)
qed

lemma valid_timestamp_bounds:
  "valid_timestamp d \<Longrightarrow> 1677 \<le> year d \<and> year d \<le> 2262 \<and> 1 \<le> month d \<and> month d \<le> 12"
  by (auto simp: valid_timestamp_def date_le_def)

lemmas prepare_eval =
  prepare_def to_datetime_def valid_timestamp_def date_le_def days_in_month_def
  month_lengths_def is_leap_def dropna_Nil dropna_Cons read_category_def na_values_def

lemma prepare_one_row: "prepare one_row_csv = Inr one_row_frame"
  by (simp add: one_row_csv_def one_row_frame_def prepare_eval)






lemma prepare_zero_total: "prepare zero_total_csv = Inr zero_total_frame"
  by (simp add: zero_total_csv_def zero_total_frame_def prepare_eval)

section \<open>Saving the charts\<close>

lemma save_charts_returned:
  "status (save_charts renders cs st) = Returned \<Longrightarrow>
     written (save_charts renders cs st) = written st @ map fst cs \<and>
     stdout (save_charts renders cs st) = stdout st @ map (\<lambda>n. ''Chart saved: '' @ n) (map fst cs) \<and>
     list_all renders (map snd cs)"
proof (induction cs arbitrary: st)
  case Nil
  then show ?case by simp
next
  case (Cons fc cs)
  from Cons.prems have r: "renders (snd fc)"
    by (auto split: if_splits)
  with Cons.prems Cons.IH show ?case by simp
qed

lemma save_charts_disk_other:
  "n \<notin> fst ` set cs \<Longrightarrow> disk (save_charts renders cs st) n = disk st n"
  by (induction cs arbitrary: st) auto

lemma save_charts_disk_png:
  "status (save_charts renders cs st) = Returned \<Longrightarrow> n \<in> fst ` set cs \<Longrightarrow>
     \<exists>ch. disk (save_charts renders cs st) n = Some (Png ch)"
proof (induction cs arbitrary: st)
  case Nil
  then show ?case by simp
next
  case (Cons fc cs)
  from Cons.prems(1) have r: "renders (snd fc)"
    by (auto split: if_splits)
  show ?case
  proof (cases "n \<in> fst ` set cs")
    case True
    with Cons.prems(1) r Cons.IH show ?thesis by simp
  next
    case False
    with Cons.prems(2) have "n = fst fc" by auto
    with False r show ?thesis by (simp add: save_charts_disk_other)
  qed
qed

lemma save_charts_all_render:
  "list_all renders (map snd cs) \<Longrightarrow> status (save_charts renders cs st) = status st"
  by (induction cs arbitrary: st) auto

lemma map_fst_charts: "map fst (charts df) = chart_files"
  by (simp add: charts_def chart_files_def)

lemma save_charts_disk_chart:
  "status (save_charts renders cs st) = Returned \<Longrightarrow> distinct (map fst cs) \<Longrightarrow>
     (n, ch) \<in> set cs \<Longrightarrow> disk (save_charts renders cs st) n = Some (Png ch)"
proof (induction cs arbitrary: st)
  case Nil
  then show ?case by simp
next
  case (Cons fc cs)
  from Cons.prems(1) have r: "renders (snd fc)"
    by (auto split: if_splits)
  show ?case
  proof (cases "(n, ch) \<in> set cs")
    case True
    with Cons.prems r Cons.IH show ?thesis by simp
  next
    case False
    with Cons.prems(3) have fc: "fc = (n, ch)" by simp
    with Cons.prems(2) have "n \<notin> fst ` set cs" by simp
    with r fc show ?thesis by (simp add: save_charts_disk_other)
  qed
qed

lemma save_charts_same_lines:
  "stdout st = stdout st' \<Longrightarrow> written st = written st' \<Longrightarrow> status st = status st' \<Longrightarrow>
     stdout (save_charts renders cs st) = stdout (save_charts renders cs st') \<and>
     written (save_charts renders cs st) = written (save_charts renders cs st') \<and>
     status (save_charts renders cs st) = status (save_charts renders cs st')"
  by (induction cs arbitrary: st st') auto


section \<open>Runs that return\<close>

lemma run_returned_cases:
  assumes "status (run_sales_analysis resamples renders file_path fs) = Returned"
  obtains cells df where "fs csv_name = Some (Csv cells)" "prepare cells = Inr df"
    "resamples df"
    "run_sales_analysis resamples renders file_path fs =
       save_charts renders (charts df) \<lparr>stdout = [], written = [], disk = fs, status = Returned\<rparr>"
  using assms
  by (auto simp: run_sales_analysis_def Let_def
      split: option.splits disk_file.splits sum.splits if_splits)

lemma run_prepared:
  assumes "fs csv_name = Some (Csv cells)" "prepare cells = Inr df"
  shows "run_sales_analysis resamples renders file_path fs =
           (if resamples df
            then save_charts renders (charts df)
                   \<lparr>stdout = [], written = [], disk = fs, status = Returned\<rparr>
            else \<lparr>stdout = [], written = [], disk = fs, status = Uncaught ResampleError\<rparr>)"
  using assms by (simp add: run_sales_analysis_def)

lemma run_returned_chart:
  assumes "status (run_sales_analysis resamples renders file_path fs) = Returned"
    and "fs csv_name = Some (Csv cells)" and "prepare cells = Inr df"
    and "(n, ch) \<in> set (charts df)"
  shows "disk (run_sales_analysis resamples renders file_path fs) n = Some (Png ch)"
proof -
  let ?st = "\<lparr>stdout = [], written = [], disk = fs, status = Returned\<rparr>"
  note rp = run_prepared [of fs cells df resamples renders file_path, OF assms(2,3)]
  from assms(1) have r: "resamples df"
    unfolding rp by (simp split: if_splits)
  then have run: "run_sales_analysis resamples renders file_path fs =
                  save_charts renders (charts df) ?st"
    by (simp add: rp)
  have dist: "distinct (map fst (charts df))"
    by (simp add: map_fst_charts chart_files_def)
  from assms(1) have ret: "status (save_charts renders (charts df) ?st) = Returned"
    by (simp add: run)
  show ?thesis
    unfolding run using ret dist assms(4) by (rule save_charts_disk_chart)
qed

lemma status_run_always:
  assumes "fs csv_name = Some (Csv cells)" "prepare cells = Inr df"
  shows "status (run_sales_analysis always_resamples always_renders file_path fs) = Returned"
  by (simp add: run_prepared [of fs cells df, OF assms] always_resamples_def
      save_charts_all_render list_all_iff always_renders_def)

lemma status_run_one_row:
  "status (run_sales_analysis always_resamples always_renders file_path one_row_disk) = Returned"
  by (rule status_run_always [of one_row_disk one_row_csv one_row_frame])
     (simp_all add: one_row_disk_def prepare_one_row)


section \<open>The files a run writes\<close>

text \<open>
  C1, as the script has it: a run that returns has written five chart files, not six:
  the five names of \<open>chart_files\<close>, each once, each now an image on the disk, with one
  confirmation line each, and no other file of the directory has changed.
\<close>

theorem run_writes_five_charts:
  assumes "status (run_sales_analysis resamples renders file_path fs) = Returned"
  shows "written (run_sales_analysis resamples renders file_path fs) = chart_files \<and>
         length (written (run_sales_analysis resamples renders file_path fs)) = 5 \<and>
         distinct (written (run_sales_analysis resamples renders file_path fs)) \<and>
         stdout (run_sales_analysis resamples renders file_path fs) = map (\<lambda>n. ''Chart saved: '' @ n) chart_files \<and>
         list_all (\<lambda>n. \<exists>ch. disk (run_sales_analysis resamples renders file_path fs) n = Some (Png ch)) chart_files \<and>
         (\<forall>n. n \<notin> set chart_files \<longrightarrow> disk (run_sales_analysis resamples renders file_path fs) n = fs n)"
proof -
  from assms obtain df where
    run: "run_sales_analysis resamples renders file_path fs =
       save_charts renders (charts df) \<lparr>stdout = [], written = [], disk = fs, status = Returned\<rparr>"
    by (rule run_returned_cases)
  let ?st = "\<lparr>stdout = [], written = [], disk = fs, status = Returned\<rparr>"
  from assms run have ret: "status (save_charts renders (charts df) ?st) = Returned" by simp
  have w: "written (save_charts renders (charts df) ?st) = chart_files"
    using save_charts_returned [OF ret] by (simp add: map_fst_charts)
  have s: "stdout (save_charts renders (charts df) ?st) = map (\<lambda>n. ''Chart saved: '' @ n) chart_files"
    using save_charts_returned [OF ret] by (simp add: map_fst_charts)
  have names: "fst ` set (charts df) = set chart_files"
    using map_fst_charts [of df] by (metis list.set_map)
  have p: "list_all (\<lambda>n. \<exists>ch. disk (save_charts renders (charts df) ?st) n = Some (Png ch)) chart_files"
    unfolding list_all_iff
    using save_charts_disk_png [OF ret] by (simp add: names)
  have o: "\<forall>n. n \<notin> set chart_files \<longrightarrow> disk (save_charts renders (charts df) ?st) n = fs n"
    using save_charts_disk_other [of _ "charts df" renders ?st]
    by (simp add: names)
  have d: "distinct chart_files" "length chart_files = 5"
    by (simp_all add: chart_files_def)
  from w s p o d show ?thesis unfolding run by simp
qed

theorem run_writes_five_charts_witness:
  "status (run_sales_analysis always_resamples always_renders csv_name one_row_disk) = Returned \<and>
   written (run_sales_analysis always_resamples always_renders csv_name one_row_disk) = chart_files \<and>
   length (written (run_sales_analysis always_resamples always_renders csv_name one_row_disk)) = 5"
  using run_writes_five_charts [OF status_run_one_row [of csv_name]] status_run_one_row [of csv_name]
  by blast

theorem six_charts_counterexample:
  "status (run_sales_analysis always_resamples always_renders csv_name one_row_disk) = Returned \<and>
   length (written (run_sales_analysis always_resamples always_renders csv_name one_row_disk)) \<noteq> 6"
proof -
  have "written (run_sales_analysis always_resamples always_renders csv_name one_row_disk) =
          chart_files"
    by (simp add: run_sales_analysis_def one_row_disk_def prepare_one_row always_resamples_def
        charts_def always_renders_def chart_files_def)
  then show ?thesis
    by (simp add: status_run_one_row chart_files_def)
qed

section \<open>The file name argument\<close>

text \<open>
  C3: when \<open>amazon_sales_2025_INR.csv\<close> does not exist, the run prints the error line
  and leaves through \<open>sys.exit(1)\<close>; it writes no file and the directory is as before.
\<close>

theorem missing_file_exits_1:
  assumes "fs csv_name = None"
  shows "run_sales_analysis resamples renders file_path fs =
           \<lparr>stdout = [not_found_message file_path], written = [], disk = fs, status = SysExit 1\<rparr>"
  using assms by (simp add: run_sales_analysis_def)

theorem missing_file_exits_1_witness:
  "Map.empty csv_name = None \<and>
   run_sales_analysis always_resamples always_renders ''sales.csv'' Map.empty =
     \<lparr>stdout = [''Error: The file '' @ [CHR 0x27] @ ''sales.csv'' @ [CHR 0x27] @ '' was not found.''],
      written = [], disk = Map.empty, status = SysExit 1\<rparr>"
  using missing_file_exits_1 [of Map.empty always_resamples always_renders "''sales.csv''"]
  by (simp add: not_found_message_def)

text \<open>
  C2, as the script has it: the argument never decides which file is read or written.
  Two runs that differ in the argument only write the same files, leave the same disk
  and end with the same status; a file stored under the argument's own name is not
  looked at. The printed lines agree whenever the fixed file exists. When it does not,
  the error line quotes the argument, so the two runs print different lines.
\<close>

theorem file_path_only_in_message:
  "written (run_sales_analysis resamples renders p fs) = written (run_sales_analysis resamples renders q fs) \<and>
   disk (run_sales_analysis resamples renders p fs) = disk (run_sales_analysis resamples renders q fs) \<and>
   status (run_sales_analysis resamples renders p fs) = status (run_sales_analysis resamples renders q fs) \<and>
   (fs csv_name \<noteq> None \<longrightarrow>
      run_sales_analysis resamples renders p fs = run_sales_analysis resamples renders q fs) \<and>
   (fs csv_name = None \<longrightarrow>
      stdout (run_sales_analysis resamples renders p fs) = [not_found_message p]) \<and>
   (p \<noteq> csv_name \<longrightarrow>
      stdout (run_sales_analysis resamples renders p (fs(p := x))) = stdout (run_sales_analysis resamples renders p fs) \<and>
      written (run_sales_analysis resamples renders p (fs(p := x))) = written (run_sales_analysis resamples renders p fs) \<and>
      status (run_sales_analysis resamples renders p (fs(p := x))) = status (run_sales_analysis resamples renders p fs))"
proof -
  have upd: "stdout (run_sales_analysis resamples renders p (fs(p := x))) =
        stdout (run_sales_analysis resamples renders p fs) \<and>
      written (run_sales_analysis resamples renders p (fs(p := x))) =
        written (run_sales_analysis resamples renders p fs) \<and>
      status (run_sales_analysis resamples renders p (fs(p := x))) =
        status (run_sales_analysis resamples renders p fs)"
    if "p \<noteq> csv_name"
    using that
    by (auto simp: run_sales_analysis_def Let_def save_charts_same_lines
        split: option.splits disk_file.splits sum.splits)
  have rest: "written (run_sales_analysis resamples renders p fs) =
      written (run_sales_analysis resamples renders q fs) \<and>
   disk (run_sales_analysis resamples renders p fs) =
      disk (run_sales_analysis resamples renders q fs) \<and>
   status (run_sales_analysis resamples renders p fs) =
      status (run_sales_analysis resamples renders q fs) \<and>
   (fs csv_name \<noteq> None \<longrightarrow>
      run_sales_analysis resamples renders p fs = run_sales_analysis resamples renders q fs) \<and>
   (fs csv_name = None \<longrightarrow>
      stdout (run_sales_analysis resamples renders p fs) = [not_found_message p])"
    by (auto simp: run_sales_analysis_def Let_def
        split: option.splits disk_file.splits sum.splits)
  from rest upd show ?thesis by blast
qed

theorem file_path_only_in_message_witness:
  "one_row_disk csv_name \<noteq> None \<and>
   run_sales_analysis always_resamples always_renders ''a.csv'' one_row_disk =
   run_sales_analysis always_resamples always_renders ''b.csv'' one_row_disk \<and>
   Map.empty csv_name = (None :: disk_file option) \<and>
   stdout (run_sales_analysis always_resamples always_renders ''a.csv'' Map.empty) = [not_found_message ''a.csv''] \<and>
   ''a.csv'' \<noteq> csv_name \<and>
   status (run_sales_analysis always_resamples always_renders ''a.csv'' (one_row_disk(''a.csv'' := Some Other))) =
   status (run_sales_analysis always_resamples always_renders ''a.csv'' one_row_disk)"
  using file_path_only_in_message
          [of always_resamples always_renders "''a.csv''" one_row_disk "''b.csv''" "Some Other"]
    file_path_only_in_message
          [of always_resamples always_renders "''a.csv''" Map.empty "''b.csv''" "Some Other"]
  by (simp add: one_row_disk_def csv_name_def)

theorem file_path_ignored_counterexample:
  "run_sales_analysis always_resamples always_renders ''a.csv'' Map.empty \<noteq>
   run_sales_analysis always_resamples always_renders ''b.csv'' Map.empty"
  by (simp add: run_sales_analysis_def not_found_message_def)

section \<open>Digits and labels\<close>

lemma digit_char_digit: "n < 10 \<Longrightarrow> is_digit (digit_char n)"
  unfolding is_digit_def digit_char_def by (rule nth_mem) simp

lemma digits_lt10: "n < 10 \<Longrightarrow> digits n = [digit_char n]"
  by (subst digits.simps) (simp add: digit_char_def)

lemma digits_ge10: "10 \<le> n \<Longrightarrow> digits n = digits (n div 10) @ [digit_char (n mod 10)]"
  by (subst digits.simps) (simp add: digit_char_def)

lemma digits_2:
  assumes "10 \<le> n" "n < 100"
  shows "digits n = [digit_char (n div 10), digit_char (n mod 10)]"
proof -
  from assms have "n div 10 < 10" by simp
  then have "digits (n div 10) = [digit_char (n div 10)]" by (rule digits_lt10)
  with assms(1) show ?thesis by (simp add: digits_ge10)
qed

lemma digits_3:
  assumes "100 \<le> n" "n < 1000"
  shows "digits n = [digit_char (n div 100), digit_char (n div 10 mod 10), digit_char (n mod 10)]"
proof -
  from assms have "10 \<le> n div 10" "n div 10 < 100" by auto
  then have "digits (n div 10) = [digit_char (n div 10 div 10), digit_char (n div 10 mod 10)]"
    by (rule digits_2)
  moreover have "n div 10 div 10 = n div 100" by (simp add: div_mult2_eq [symmetric])
  moreover from assms have "10 \<le> n" by simp
  ultimately show ?thesis by (simp add: digits_ge10)
qed

lemma digits_4:
  assumes "1000 \<le> n" "n < 10000"
  shows "digits n =
           [digit_char (n div 1000 mod 10), digit_char (n div 100 mod 10),
            digit_char (n div 10 mod 10), digit_char (n mod 10)]"
proof -
  from assms have "100 \<le> n div 10" "n div 10 < 1000" by auto
  then have "digits (n div 10) =
      [digit_char (n div 10 div 100), digit_char (n div 10 div 10 mod 10),
       digit_char (n div 10 mod 10)]"
    by (rule digits_3)
  moreover have "n div 10 div 100 = n div 1000" "n div 10 div 10 = n div 100"
    by (simp_all add: div_mult2_eq [symmetric])
  moreover from assms have "n div 1000 < 10" by simp
  then have "n div 1000 mod 10 = n div 1000" by simp
  moreover from assms have "10 \<le> n" by simp
  ultimately show ?thesis by (simp add: digits_ge10)
qed

lemma zero_pad_4:
  assumes "1000 \<le> n" "n < 10000"
  shows "zero_pad 4 n =
           [digit_char (n div 1000 mod 10), digit_char (n div 100 mod 10),
            digit_char (n div 10 mod 10), digit_char (n mod 10)]"
  by (simp add: zero_pad_def digits_4 [OF assms])

lemma zero_pad_2:
  assumes "n < 100"
  shows "zero_pad 2 n = [digit_char (n div 10 mod 10), digit_char (n mod 10)]"
proof (cases "n < 10")
  case True
  then show ?thesis by (simp add: zero_pad_def digits_lt10 digit_char_def)
next
  case False
  with assms have "n div 10 < 10" by simp
  then have "n div 10 mod 10 = n div 10" by simp
  with False assms show ?thesis by (simp add: zero_pad_def digits_2)
qed

lemma month_label_text:
  assumes "1000 * 12 \<le> k" "k < 10000 * 12"
  shows "month_label k = year_month_text (nat (k div 12)) (nat (k mod 12) + 1)"
proof -
  let ?y = "nat (k div 12)" and ?m = "nat (k mod 12) + 1"
  from assms have y: "1000 \<le> ?y" "?y < 10000" by auto
  have "k mod 12 < 12" by simp
  then have m: "?m < 100" by linarith
  show ?thesis
    unfolding month_label_def year_month_text_def zero_pad_4 [OF y] zero_pad_2 [OF m]
    by simp
qed

lemma quarter_label_text:
  assumes "1000 * 4 \<le> k" "k < 10000 * 4"
  shows "quarter_label k = year_quarter_text (nat (k div 4)) (nat (k mod 4) + 1)"
proof -
  let ?y = "nat (k div 4)" and ?q = "nat (k mod 4) + 1"
  from assms have y: "1000 \<le> ?y" "?y < 10000" by auto
  have "k mod 4 < 4" by simp
  then have q: "?q < 10" by linarith
  then have "?q mod 10 = ?q" by simp
  then show ?thesis
    unfolding quarter_label_def year_quarter_text_def digits_4 [OF y] digits_lt10 [OF q]
    by simp
qed

lemma year_month_text_shape:
  assumes "1 \<le> m" "m \<le> 12"
  shows "is_month_label (year_month_text y m)"
proof -
  from assms have "m = 1 \<or> m = 2 \<or> m = 3 \<or> m = 4 \<or> m = 5 \<or> m = 6 \<or> m = 7 \<or> m = 8 \<or>
      m = 9 \<or> m = 10 \<or> m = 11 \<or> m = 12" by presburger
  then have "[digit_char (m div 10 mod 10), digit_char (m mod 10)] \<in>
      set [''01'', ''02'', ''03'', ''04'', ''05'', ''06'', ''07'', ''08'', ''09'',
           ''10'', ''11'', ''12'']"
    by (elim disjE) (simp_all add: digit_char_def)
  then show ?thesis
    unfolding is_month_label_def year_month_text_def
    by (simp add: digit_char_digit)
qed

lemma year_quarter_text_shape:
  assumes "1 \<le> q" "q \<le> 4"
  shows "is_quarter_label (year_quarter_text y q)"
proof -
  from assms have "q = 1 \<or> q = 2 \<or> q = 3 \<or> q = 4" by presburger
  then have "digit_char (q mod 10) \<in> set ''1234''"
    by (elim disjE) (simp_all add: digit_char_def)
  then show ?thesis
    unfolding is_quarter_label_def year_quarter_text_def
    by (simp add: digit_char_digit)
qed

section \<open>Buckets of a resampled series\<close>

lemma fold_min_Min: "fold min ks (k::int) = Min (set (k # ks))"
  by (simp only: Min.set_eq_fold)

lemma fold_max_Max: "fold max ks (k::int) = Max (set (k # ks))"
  by (simp only: Max.set_eq_fold)

lemma dated_keys_Nil: "dated_keys key [] = []"
  by (simp add: dated_keys_def map_filter_simps)

lemma dated_keys_Cons:
  "dated_keys key (r # rs) =
     (case Date r of None \<Rightarrow> dated_keys key rs | Some d \<Rightarrow> key d # dated_keys key rs)"
  by (simp add: dated_keys_def map_filter_simps split: option.splits)

lemma set_dated_keys:
  "k \<in> set (dated_keys key df) \<longleftrightarrow> (\<exists>r \<in> set df. map_option key (Date r) = Some k)"
  by (induction df) (auto simp: dated_keys_Nil dated_keys_Cons split: option.splits)

lemma resample_sum_eq:
  assumes "dated_keys key df \<noteq> []"
  shows "resample_sum key df =
           map (\<lambda>b. (b, bucket_sum key df b))
             [Min (set (dated_keys key df)) .. Max (set (dated_keys key df))]"
proof -
  from assms obtain k ks where ks: "dated_keys key df = k # ks"
    by (cases "dated_keys key df") auto
  show ?thesis
    unfolding resample_sum_def ks by (simp add: fold_min_Min fold_max_Max)
qed


lemma resample_sum_entry:
  assumes "p \<in> set (resample_sum key df)"
  shows "\<exists>k1 \<in> set (dated_keys key df). \<exists>k2 \<in> set (dated_keys key df). k1 \<le> fst p \<and> fst p \<le> k2"
    and "snd p = bucket_sum key df (fst p)"
proof -
  from assms have ne: "dated_keys key df \<noteq> []"
    by (auto simp: resample_sum_def)
  let ?ks = "set (dated_keys key df)"
  from assms have p: "Min ?ks \<le> fst p" "fst p \<le> Max ?ks" "snd p = bucket_sum key df (fst p)"
    unfolding resample_sum_eq [OF ne] by auto
  from ne have "Min ?ks \<in> ?ks" "Max ?ks \<in> ?ks"
    by (auto intro: Min_in Max_in)
  with p show "\<exists>k1 \<in> ?ks. \<exists>k2 \<in> ?ks. k1 \<le> fst p \<and> fst p \<le> k2"
    by blast
  from p show "snd p = bucket_sum key df (fst p)" by simp
qed

lemma resample_sum_row:
  assumes "r \<in> set df" "Date r = Some d"
  shows "(key d, bucket_sum key df (key d)) \<in> set (resample_sum key df)"
proof -
  from assms have k: "key d \<in> set (dated_keys key df)"
    unfolding set_dated_keys by force
  then have ne: "dated_keys key df \<noteq> []" by auto
  from k have "Min (set (dated_keys key df)) \<le> key d" "key d \<le> Max (set (dated_keys key df))"
    by simp_all
  then show ?thesis
    unfolding resample_sum_eq [OF ne] by simp
qed

lemma month_index_bounds:
  "valid_timestamp d \<Longrightarrow> 1677 * 12 \<le> month_index d \<and> month_index d < 2263 * 12"
  using valid_timestamp_bounds [of d] by (auto simp: month_index_def)

lemma quarter_index_bounds:
  "valid_timestamp d \<Longrightarrow> 1677 * 4 \<le> quarter_index d \<and> quarter_index d < 2263 * 4"
  using valid_timestamp_bounds [of d] by (auto simp: quarter_index_def)

lemma month_index_parts:
  assumes "1 \<le> month d" "month d \<le> 12"
  shows "nat (month_index d div 12) = year d" "nat (month_index d mod 12) + 1 = month d"
proof -
  define m where "m = int (month d) - 1"
  from assms have m: "0 \<le> m" "m < 12" by (simp_all add: m_def)
  have idx: "month_index d = int (year d) * 12 + m"
    by (simp add: month_index_def m_def)
  from m have "month_index d div 12 = int (year d)" "month_index d mod 12 = m"
    unfolding idx by simp_all
  then show "nat (month_index d div 12) = year d" "nat (month_index d mod 12) + 1 = month d"
    using assms by (simp_all add: m_def)
qed

lemma quarter_index_parts:
  assumes "1 \<le> month d" "month d \<le> 12"
  shows "nat (quarter_index d div 4) = year d" "nat (quarter_index d mod 4) + 1 = quarter_of d"
proof -
  define q where "q = (int (month d) - 1) div 3"
  from assms have q: "0 \<le> q" "q < 4" by (simp_all add: q_def)
  have idx: "quarter_index d = int (year d) * 4 + q"
    by (simp add: quarter_index_def q_def)
  from q have dm: "quarter_index d div 4 = int (year d)" "quarter_index d mod 4 = q"
    unfolding idx by simp_all
  from assms have "q = int ((month d - 1) div 3)"
    by (simp add: q_def zdiv_int of_nat_diff)
  with dm show "nat (quarter_index d div 4) = year d"
    "nat (quarter_index d mod 4) + 1 = quarter_of d"
    by (simp_all add: quarter_of_def)
qed

lemma month_index_eq_iff:
  assumes "1 \<le> month d" "month d \<le> 12" "1 \<le> month e" "month e \<le> 12"
  shows "month_index e = month_index d \<longleftrightarrow> year e = year d \<and> month e = month d"
  using month_index_parts [OF assms(1,2)] month_index_parts [OF assms(3,4)]
  by (metis month_index_def)

lemma quarter_index_eq_iff:
  assumes "1 \<le> month d" "month d \<le> 12" "1 \<le> month e" "month e \<le> 12"
  shows "quarter_index e = quarter_index d \<longleftrightarrow> year e = year d \<and> quarter_of e = quarter_of d"
proof
  assume "quarter_index e = quarter_index d"
  with quarter_index_parts [OF assms(1,2)] quarter_index_parts [OF assms(3,4)]
  show "year e = year d \<and> quarter_of e = quarter_of d" by metis
next
  assume a: "year e = year d \<and> quarter_of e = quarter_of d"
  then have "(month e - 1) div 3 = (month d - 1) div 3" by (simp add: quarter_of_def)
  with assms have "(int (month e) - 1) div 3 = (int (month d) - 1) div 3"
    by (metis of_nat_diff of_nat_1 zdiv_int of_nat_numeral)
  with a show "quarter_index e = quarter_index d" by (simp add: quarter_index_def)
qed

section \<open>Bucket labels\<close>

lemma bucket_month_total:
  assumes "prepare cells = Inr df" "valid_timestamp d"
  shows "bucket_sum month_index df (month_index d) = month_total df (year d) (month d)"
proof -
  have "filter (\<lambda>r. map_option month_index (Date r) = Some (month_index d)) df =
        filter (\<lambda>r. case Date r of None \<Rightarrow> False | Some e \<Rightarrow> year e = year d \<and> month e = month d) df"
  proof (rule filter_cong)
    fix r assume r: "r \<in> set df"
    show "(map_option month_index (Date r) = Some (month_index d)) =
          (case Date r of None \<Rightarrow> False | Some e \<Rightarrow> year e = year d \<and> month e = month d)"
    proof (cases "Date r")
      case None
      then show ?thesis by simp
    next
      case (Some e)
      with assms(1) r have "valid_timestamp e" by (rule prepare_valid)
      with assms(2) have "month_index e = month_index d \<longleftrightarrow> year e = year d \<and> month e = month d"
        by (intro month_index_eq_iff) (simp_all add: valid_timestamp_def)
      with Some show ?thesis by simp
    qed
  qed simp
  then show ?thesis by (simp add: bucket_sum_def month_total_def)
qed

lemma bucket_quarter_total:
  assumes "prepare cells = Inr df" "valid_timestamp d"
  shows "bucket_sum quarter_index df (quarter_index d) = quarter_total df (year d) (quarter_of d)"
proof -
  have "filter (\<lambda>r. map_option quarter_index (Date r) = Some (quarter_index d)) df =
        filter (\<lambda>r. case Date r of None \<Rightarrow> False
                     | Some e \<Rightarrow> year e = year d \<and> quarter_of e = quarter_of d) df"
  proof (rule filter_cong)
    fix r assume r: "r \<in> set df"
    show "(map_option quarter_index (Date r) = Some (quarter_index d)) =
          (case Date r of None \<Rightarrow> False | Some e \<Rightarrow> year e = year d \<and> quarter_of e = quarter_of d)"
    proof (cases "Date r")
      case None
      then show ?thesis by simp
    next
      case (Some e)
      with assms(1) r have "valid_timestamp e" by (rule prepare_valid)
      with assms(2) have "quarter_index e = quarter_index d \<longleftrightarrow>
          year e = year d \<and> quarter_of e = quarter_of d"
        by (intro quarter_index_eq_iff) (simp_all add: valid_timestamp_def)
      with Some show ?thesis by simp
    qed
  qed simp
  then show ?thesis by (simp add: bucket_sum_def quarter_total_def)
qed

lemma bucket_in_range:
  assumes "prepare cells = Inr df" "p \<in> set (resample_sum key df)"
    and "\<And>d. valid_timestamp d \<Longrightarrow> lo \<le> key d \<and> key d < hi"
  shows "lo \<le> fst p \<and> fst p < hi"
proof -
  from resample_sum_entry(1) [OF assms(2)] obtain k1 k2 where
    k: "k1 \<in> set (dated_keys key df)" "k2 \<in> set (dated_keys key df)" "k1 \<le> fst p" "fst p \<le> k2"
    by blast
  from k(1,2) obtain r1 d1 r2 d2 where
    r: "r1 \<in> set df" "Date r1 = Some d1" "key d1 = k1" "r2 \<in> set df" "Date r2 = Some d2" "key d2 = k2"
    unfolding set_dated_keys by auto
  from assms(1) r have "valid_timestamp d1" "valid_timestamp d2"
    by (auto intro: prepare_valid)
  with assms(3) [of d1] assms(3) [of d2] r k show ?thesis by auto
qed

lemma monthly_labels_text:
  assumes "prepare cells = Inr df"
  shows "map fst (monthly_labelled df) =
           map (\<lambda>k. year_month_text (nat (k div 12)) (nat (k mod 12) + 1))
             (map fst (monthly_sales df))"
proof -
  have "month_label (fst p) = year_month_text (nat (fst p div 12)) (nat (fst p mod 12) + 1)"
    if "p \<in> set (monthly_sales df)" for p
  proof -
    from that have "1677 * 12 \<le> fst p \<and> fst p < 2263 * 12"
      unfolding monthly_sales_def
      by (rule bucket_in_range [OF assms]) (rule month_index_bounds)
    then show ?thesis by (intro month_label_text) simp_all
  qed
  then show ?thesis by (simp add: monthly_labelled_def)
qed

lemma quarterly_labels_text:
  assumes "prepare cells = Inr df"
  shows "map fst (quarterly_labelled df) =
           map (\<lambda>k. year_quarter_text (nat (k div 4)) (nat (k mod 4) + 1))
             (map fst (quarterly_sales df))"
proof -
  have "quarter_label (fst p) = year_quarter_text (nat (fst p div 4)) (nat (fst p mod 4) + 1)"
    if "p \<in> set (quarterly_sales df)" for p
  proof -
    from that have "1677 * 4 \<le> fst p \<and> fst p < 2263 * 4"
      unfolding quarterly_sales_def
      by (rule bucket_in_range [OF assms]) (rule quarter_index_bounds)
    then show ?thesis by (intro quarter_label_text) simp_all
  qed
  then show ?thesis by (simp add: quarterly_labelled_def)
qed

lemma monthly_labels_shape:
  assumes "prepare cells = Inr df"
  shows "list_all is_month_label (map fst (monthly_labelled df))"
proof -
  have "is_month_label (year_month_text (nat (k div 12)) (nat (k mod 12) + 1))" for k :: int
  proof (rule year_month_text_shape)
    have "0 \<le> k mod 12" "k mod 12 < 12" by simp_all
    then show "1 \<le> nat (k mod 12) + 1" "nat (k mod 12) + 1 \<le> 12" by linarith+
  qed
  then show ?thesis
    unfolding monthly_labels_text [OF assms] by (simp add: list_all_iff)
qed

lemma quarterly_labels_shape:
  assumes "prepare cells = Inr df"
  shows "list_all is_quarter_label (map fst (quarterly_labelled df))"
proof -
  have "is_quarter_label (year_quarter_text (nat (k div 4)) (nat (k mod 4) + 1))" for k :: int
  proof (rule year_quarter_text_shape)
    have "0 \<le> k mod 4" "k mod 4 < 4" by simp_all
    then show "1 \<le> nat (k mod 4) + 1" "nat (k mod 4) + 1 \<le> 4" by linarith+
  qed
  then show ?thesis
    unfolding quarterly_labels_text [OF assms] by (simp add: list_all_iff)
qed

lemma monthly_label_of_row:
  assumes "prepare cells = Inr df" "r \<in> set df" "Date r = Some d"
  shows "(year_month_text (year d) (month d), month_total df (year d) (month d))
           \<in> set (monthly_labelled df)"
proof -
  from assms have v: "valid_timestamp d" by (rule prepare_valid)
  then have m: "1 \<le> month d" "month d \<le> 12" by (simp_all add: valid_timestamp_def)
  from month_index_bounds [OF v]
  have "month_label (month_index d) =
        year_month_text (nat (month_index d div 12)) (nat (month_index d mod 12) + 1)"
    by (intro month_label_text) simp_all
  then have l: "month_label (month_index d) = year_month_text (year d) (month d)"
    using month_index_parts [OF m] by simp
  from assms(2,3) have "(month_index d, bucket_sum month_index df (month_index d))
      \<in> set (monthly_sales df)"
    unfolding monthly_sales_def by (rule resample_sum_row)
  then have "(month_label (month_index d), bucket_sum month_index df (month_index d))
      \<in> set (monthly_labelled df)"
    unfolding monthly_labelled_def by force
  then show ?thesis
    by (simp add: l bucket_month_total [OF assms(1) v])
qed

lemma quarterly_label_of_row:
  assumes "prepare cells = Inr df" "r \<in> set df" "Date r = Some d"
  shows "(year_quarter_text (year d) (quarter_of d), quarter_total df (year d) (quarter_of d))
           \<in> set (quarterly_labelled df)"
proof -
  from assms have v: "valid_timestamp d" by (rule prepare_valid)
  then have m: "1 \<le> month d" "month d \<le> 12" by (simp_all add: valid_timestamp_def)
  from quarter_index_bounds [OF v]
  have "quarter_label (quarter_index d) =
        year_quarter_text (nat (quarter_index d div 4)) (nat (quarter_index d mod 4) + 1)"
    by (intro quarter_label_text) simp_all
  then have l: "quarter_label (quarter_index d) = year_quarter_text (year d) (quarter_of d)"
    using quarter_index_parts [OF m] by simp
  from assms(2,3) have "(quarter_index d, bucket_sum quarter_index df (quarter_index d))
      \<in> set (quarterly_sales df)"
    unfolding quarterly_sales_def by (rule resample_sum_row)
  then have "(quarter_label (quarter_index d), bucket_sum quarter_index df (quarter_index d))
      \<in> set (quarterly_labelled df)"
    unfolding quarterly_labelled_def by force
  then show ?thesis
    by (simp add: l bucket_quarter_total [OF assms(1) v])
qed

lemma month_label_2025_01: "month_label 24300 = ''2025-01''"
proof -
  have "month_label 24300 = year_month_text (nat (24300 div 12)) (nat (24300 mod 12) + 1)"
    by (rule month_label_text) simp_all
  then show ?thesis by (simp add: year_month_text_def digit_char_def)
qed

lemma quarter_label_2025Q1: "quarter_label 8100 = ''2025Q1''"
proof -
  have "quarter_label 8100 = year_quarter_text (nat (8100 div 4)) (nat (8100 mod 4) + 1)"
    by (rule quarter_label_text) simp_all
  then show ?thesis by (simp add: year_quarter_text_def digit_char_def)
qed

lemma prepare_fixture_row:
  "prepare [\<lparr>csv_Date = Date_text \<lparr>year = 2025, month = 1, day = 15\<rparr>,
             csv_Product_Category = c, csv_Total_Sales_INR = Some 1000\<rparr>] =
     Inr [\<lparr>Date = Some \<lparr>year = 2025, month = 1, day = 15\<rparr>,
           Product_Category = read_category c, Total_Sales_INR = 1000\<rparr>]"
  by (simp add: prepare_def to_datetime_def valid_timestamp_def date_le_def days_in_month_def
      month_lengths_def dropna_Nil dropna_Cons)

lemma monthly_fixture_row:
  "monthly_labelled [\<lparr>Date = Some \<lparr>year = 2025, month = 1, day = 15\<rparr>,
                      Product_Category = k, Total_Sales_INR = 1000\<rparr>] = [(''2025-01'', 1000)]"
proof -
  have "monthly_sales [\<lparr>Date = Some \<lparr>year = 2025, month = 1, day = 15\<rparr>,
                        Product_Category = k, Total_Sales_INR = 1000\<rparr>] = [(24300, 1000)]"
    by (simp add: monthly_sales_def resample_sum_def dated_keys_Nil dated_keys_Cons
        bucket_sum_def month_index_def)
  then show ?thesis by (simp add: monthly_labelled_def month_label_2025_01)
qed

lemma quarterly_fixture_row:
  "quarterly_labelled [\<lparr>Date = Some \<lparr>year = 2025, month = 1, day = 15\<rparr>,
                        Product_Category = k, Total_Sales_INR = 1000\<rparr>] = [(''2025Q1'', 1000)]"
proof -
  have "quarterly_sales [\<lparr>Date = Some \<lparr>year = 2025, month = 1, day = 15\<rparr>,
                          Product_Category = k, Total_Sales_INR = 1000\<rparr>] = [(8100, 1000)]"
    by (simp add: quarterly_sales_def resample_sum_def dated_keys_Nil dated_keys_Cons
        bucket_sum_def quarter_index_def)
  then show ?thesis by (simp add: quarterly_labelled_def quarter_label_2025Q1)
qed

text \<open>
  C8: for every file whose dates convert, every label of the monthly aggregate is the
  text YYYY-MM of the year and the month of its own bucket, which has the shape of four
  digits, a hyphen and a month 01 to 12; every dated row of the frame lies in the bucket
  labelled with the year and month of its date, and that bucket holds the sum of the
  amounts of the rows of that month; a run that returns has saved the monthly chart with
  these labels. A file whose only line is dated 2025-01-15 with amount 1000 gives the
  monthly aggregate exactly one bucket, labelled 2025-01, of value 1000, whatever the
  category of the line.
\<close>

theorem monthly_labels_year_month:
  "(prepare cells = Inr df \<longrightarrow>
      list_all is_month_label (map fst (monthly_labelled df)) \<and>
      map fst (monthly_labelled df) =
        map (\<lambda>k. year_month_text (nat (k div 12)) (nat (k mod 12) + 1))
          (map fst (monthly_sales df)) \<and>
      list_all
        (\<lambda>r. case Date r of
                None \<Rightarrow> True
              | Some d \<Rightarrow>
                  (year_month_text (year d) (month d), month_total df (year d) (month d))
                    \<in> set (monthly_labelled df))
        df \<and>
      (status (run_sales_analysis resamples renders file_path fs) = Returned \<and>
       fs csv_name = Some (Csv cells) \<longrightarrow>
         disk (run_sales_analysis resamples renders file_path fs)
           ''monthly_sales_line_chart.png'' =
           Some (Png (Line_labels ''Monthly Total Sales (INR)'' (monthly_labelled df))))) \<and>
   prepare [\<lparr>csv_Date = Date_text \<lparr>year = 2025, month = 1, day = 15\<rparr>,
             csv_Product_Category = c, csv_Total_Sales_INR = Some 1000\<rparr>] =
     Inr [\<lparr>Date = Some \<lparr>year = 2025, month = 1, day = 15\<rparr>,
           Product_Category = read_category c, Total_Sales_INR = 1000\<rparr>] \<and>
   monthly_labelled [\<lparr>Date = Some \<lparr>year = 2025, month = 1, day = 15\<rparr>,
                      Product_Category = read_category c, Total_Sales_INR = 1000\<rparr>] =
     [(''2025-01'', 1000)]"
proof -
  have general:
    "list_all is_month_label (map fst (monthly_labelled df)) \<and>
      map fst (monthly_labelled df) =
        map (\<lambda>k. year_month_text (nat (k div 12)) (nat (k mod 12) + 1))
          (map fst (monthly_sales df)) \<and>
      list_all
        (\<lambda>r. case Date r of
                None \<Rightarrow> True
              | Some d \<Rightarrow>
                  (year_month_text (year d) (month d), month_total df (year d) (month d))
                    \<in> set (monthly_labelled df))
        df \<and>
      (status (run_sales_analysis resamples renders file_path fs) = Returned \<and>
       fs csv_name = Some (Csv cells) \<longrightarrow>
         disk (run_sales_analysis resamples renders file_path fs)
           ''monthly_sales_line_chart.png'' =
           Some (Png (Line_labels ''Monthly Total Sales (INR)'' (monthly_labelled df))))"
    if p: "prepare cells = Inr df"
  proof (intro conjI impI)
    show "list_all is_month_label (map fst (monthly_labelled df))"
      using p by (rule monthly_labels_shape)
    show "map fst (monthly_labelled df) =
        map (\<lambda>k. year_month_text (nat (k div 12)) (nat (k mod 12) + 1))
          (map fst (monthly_sales df))"
      using p by (rule monthly_labels_text)
    show "list_all
        (\<lambda>r. case Date r of
                None \<Rightarrow> True
              | Some d \<Rightarrow>
                  (year_month_text (year d) (month d), month_total df (year d) (month d))
                    \<in> set (monthly_labelled df))
        df"
      unfolding list_all_iff
      using monthly_label_of_row [OF p] by (auto split: option.splits)
  next
    assume "status (run_sales_analysis resamples renders file_path fs) = Returned \<and>
       fs csv_name = Some (Csv cells)"
    then have "status (run_sales_analysis resamples renders file_path fs) = Returned"
      "fs csv_name = Some (Csv cells)" by simp_all
    then show "disk (run_sales_analysis resamples renders file_path fs)
           ''monthly_sales_line_chart.png'' =
           Some (Png (Line_labels ''Monthly Total Sales (INR)'' (monthly_labelled df)))"
      using p by (rule run_returned_chart) (simp add: charts_def)
  qed
  from general show ?thesis
    by (simp only: prepare_fixture_row monthly_fixture_row) blast
qed

theorem monthly_labels_year_month_witness:
  "prepare one_row_csv = Inr one_row_frame \<and>
   status (run_sales_analysis always_resamples always_renders csv_name one_row_disk) = Returned \<and>
   one_row_disk csv_name = Some (Csv one_row_csv) \<and>
   list_all is_month_label (map fst (monthly_labelled one_row_frame)) \<and>
   (year_month_text 2025 1, month_total one_row_frame 2025 1) \<in> set (monthly_labelled one_row_frame) \<and>
   year_month_text 2025 1 = ''2025-01'' \<and> month_total one_row_frame 2025 1 = 1000 \<and>
   disk (run_sales_analysis always_resamples always_renders csv_name one_row_disk)
     ''monthly_sales_line_chart.png'' =
     Some (Png (Line_labels ''Monthly Total Sales (INR)'' [(''2025-01'', 1000)]))"
proof -
  have d: "one_row_disk csv_name = Some (Csv one_row_csv)"
    by (simp add: one_row_disk_def)
  have m: "monthly_labelled one_row_frame = [(''2025-01'', 1000)]"
    unfolding one_row_frame_def by (rule monthly_fixture_row)
  have t: "year_month_text 2025 1 = ''2025-01''" "month_total one_row_frame 2025 1 = 1000"
    by (simp_all add: year_month_text_def digit_char_def month_total_def one_row_frame_def)
  note st = status_run_one_row [of csv_name]
  from monthly_labels_year_month
         [of one_row_csv one_row_frame always_resamples always_renders csv_name one_row_disk]
       prepare_one_row st d
  have shape: "list_all is_month_label (map fst (monthly_labelled one_row_frame))"
    and rows: "list_all
        (\<lambda>r. case Date r of
                None \<Rightarrow> True
              | Some d \<Rightarrow>
                  (year_month_text (year d) (month d), month_total one_row_frame (year d) (month d))
                    \<in> set (monthly_labelled one_row_frame))
        one_row_frame"
    and chart: "disk (run_sales_analysis always_resamples always_renders csv_name one_row_disk)
           ''monthly_sales_line_chart.png'' =
           Some (Png (Line_labels ''Monthly Total Sales (INR)'' (monthly_labelled one_row_frame)))"
    by blast+
  from rows have mem: "(year_month_text 2025 1, month_total one_row_frame 2025 1)
      \<in> set (monthly_labelled one_row_frame)"
    by (simp add: one_row_frame_def)
  from shape mem chart prepare_one_row st d t show ?thesis
    unfolding m by blast
qed

text \<open>
  C7, as the script has it: for every file whose dates convert, every label of the
  quarterly aggregate is the text YYYYQn, with no space, of the year and the quarter of
  its own bucket, which has the shape of four digits, the letter Q and a quarter 1 to 4;
  every dated row of the frame lies in the bucket labelled with the year and quarter of
  its date, and that bucket holds the sum of the amounts of the rows of that quarter; a
  run that returns has saved the quarterly chart with these labels. A file whose only
  line is dated 2025-01-15 with amount 1000 gives the quarterly aggregate exactly one
  bucket, labelled 2025Q1, of value 1000.
\<close>

theorem quarterly_labels_year_Q_quarter:
  "(prepare cells = Inr df \<longrightarrow>
      list_all is_quarter_label (map fst (quarterly_labelled df)) \<and>
      map fst (quarterly_labelled df) =
        map (\<lambda>k. year_quarter_text (nat (k div 4)) (nat (k mod 4) + 1))
          (map fst (quarterly_sales df)) \<and>
      list_all
        (\<lambda>r. case Date r of
                None \<Rightarrow> True
              | Some d \<Rightarrow>
                  (year_quarter_text (year d) (quarter_of d),
                   quarter_total df (year d) (quarter_of d))
                    \<in> set (quarterly_labelled df))
        df \<and>
      (status (run_sales_analysis resamples renders file_path fs) = Returned \<and>
       fs csv_name = Some (Csv cells) \<longrightarrow>
         disk (run_sales_analysis resamples renders file_path fs)
           ''quarterly_sales_line_chart.png'' =
           Some (Png (Line_labels ''Quarterly Total Sales (INR)'' (quarterly_labelled df))))) \<and>
   prepare [\<lparr>csv_Date = Date_text \<lparr>year = 2025, month = 1, day = 15\<rparr>,
             csv_Product_Category = c, csv_Total_Sales_INR = Some 1000\<rparr>] =
     Inr [\<lparr>Date = Some \<lparr>year = 2025, month = 1, day = 15\<rparr>,
           Product_Category = read_category c, Total_Sales_INR = 1000\<rparr>] \<and>
   quarterly_labelled [\<lparr>Date = Some \<lparr>year = 2025, month = 1, day = 15\<rparr>,
                        Product_Category = read_category c, Total_Sales_INR = 1000\<rparr>] =
     [(''2025Q1'', 1000)]"
proof -
  have general:
    "list_all is_quarter_label (map fst (quarterly_labelled df)) \<and>
      map fst (quarterly_labelled df) =
        map (\<lambda>k. year_quarter_text (nat (k div 4)) (nat (k mod 4) + 1))
          (map fst (quarterly_sales df)) \<and>
      list_all
        (\<lambda>r. case Date r of
                None \<Rightarrow> True
              | Some d \<Rightarrow>
                  (year_quarter_text (year d) (quarter_of d),
                   quarter_total df (year d) (quarter_of d))
                    \<in> set (quarterly_labelled df))
        df \<and>
      (status (run_sales_analysis resamples renders file_path fs) = Returned \<and>
       fs csv_name = Some (Csv cells) \<longrightarrow>
         disk (run_sales_analysis resamples renders file_path fs)
           ''quarterly_sales_line_chart.png'' =
           Some (Png (Line_labels ''Quarterly Total Sales (INR)'' (quarterly_labelled df))))"
    if p: "prepare cells = Inr df"
  proof (intro conjI impI)
    show "list_all is_quarter_label (map fst (quarterly_labelled df))"
      using p by (rule quarterly_labels_shape)
    show "map fst (quarterly_labelled df) =
        map (\<lambda>k. year_quarter_text (nat (k div 4)) (nat (k mod 4) + 1))
          (map fst (quarterly_sales df))"
      using p by (rule quarterly_labels_text)
    show "list_all
        (\<lambda>r. case Date r of
                None \<Rightarrow> True
              | Some d \<Rightarrow>
                  (year_quarter_text (year d) (quarter_of d),
                   quarter_total df (year d) (quarter_of d))
                    \<in> set (quarterly_labelled df))
        df"
      unfolding list_all_iff
      using quarterly_label_of_row [OF p] by (auto split: option.splits)
  next
    assume "status (run_sales_analysis resamples renders file_path fs) = Returned \<and>
       fs csv_name = Some (Csv cells)"
    then have "status (run_sales_analysis resamples renders file_path fs) = Returned"
      "fs csv_name = Some (Csv cells)" by simp_all
    then show "disk (run_sales_analysis resamples renders file_path fs)
           ''quarterly_sales_line_chart.png'' =
           Some (Png (Line_labels ''Quarterly Total Sales (INR)'' (quarterly_labelled df)))"
      using p by (rule run_returned_chart) (simp add: charts_def)
  qed
  from general show ?thesis
    by (simp only: prepare_fixture_row quarterly_fixture_row) blast
qed

theorem quarterly_labels_year_Q_quarter_witness:
  "prepare one_row_csv = Inr one_row_frame \<and>
   status (run_sales_analysis always_resamples always_renders csv_name one_row_disk) = Returned \<and>
   one_row_disk csv_name = Some (Csv one_row_csv) \<and>
   list_all is_quarter_label (map fst (quarterly_labelled one_row_frame)) \<and>
   (year_quarter_text 2025 1, quarter_total one_row_frame 2025 1)
     \<in> set (quarterly_labelled one_row_frame) \<and>
   year_quarter_text 2025 1 = ''2025Q1'' \<and> quarter_total one_row_frame 2025 1 = 1000 \<and>
   disk (run_sales_analysis always_resamples always_renders csv_name one_row_disk)
     ''quarterly_sales_line_chart.png'' =
     Some (Png (Line_labels ''Quarterly Total Sales (INR)'' [(''2025Q1'', 1000)]))"
proof -
  have d: "one_row_disk csv_name = Some (Csv one_row_csv)"
    by (simp add: one_row_disk_def)
  have m: "quarterly_labelled one_row_frame = [(''2025Q1'', 1000)]"
    unfolding one_row_frame_def by (rule quarterly_fixture_row)
  have t: "year_quarter_text 2025 1 = ''2025Q1''" "quarter_total one_row_frame 2025 1 = 1000"
    by (simp_all add: year_quarter_text_def digit_char_def quarter_total_def quarter_of_def
        one_row_frame_def)
  note st = status_run_one_row [of csv_name]
  from quarterly_labels_year_Q_quarter
         [of one_row_csv one_row_frame always_resamples always_renders csv_name one_row_disk]
       prepare_one_row st d
  have shape: "list_all is_quarter_label (map fst (quarterly_labelled one_row_frame))"
    and rows: "list_all
        (\<lambda>r. case Date r of
                None \<Rightarrow> True
              | Some d \<Rightarrow>
                  (year_quarter_text (year d) (quarter_of d),
                   quarter_total one_row_frame (year d) (quarter_of d))
                    \<in> set (quarterly_labelled one_row_frame))
        one_row_frame"
    and chart: "disk (run_sales_analysis always_resamples always_renders csv_name one_row_disk)
           ''quarterly_sales_line_chart.png'' =
           Some (Png (Line_labels ''Quarterly Total Sales (INR)''
                        (quarterly_labelled one_row_frame)))"
    by blast+
  from rows have mem: "(year_quarter_text 2025 1, quarter_total one_row_frame 2025 1)
      \<in> set (quarterly_labelled one_row_frame)"
    by (simp add: one_row_frame_def quarter_of_def)
  from shape mem chart prepare_one_row st d t show ?thesis
    unfolding m by blast
qed

theorem quarter_label_space_counterexample:
  "prepare one_row_csv = Inr one_row_frame \<and>
   quarterly_labelled one_row_frame = [(''2025Q1'', 1000)] \<and>
   quarterly_labelled one_row_frame \<noteq> [(''2025 Q1'', 1000)]"
proof -
  have "quarterly_labelled one_row_frame = [(''2025Q1'', 1000)]"
    unfolding one_row_frame_def by (rule quarterly_fixture_row)
  then show ?thesis by (simp add: prepare_one_row)
qed

section \<open>Totals of the aggregates\<close>

lemma sum_list_delta:
  "distinct bs \<Longrightarrow> (\<Sum>b\<leftarrow>bs. if k = b then (a::rat) else 0) = (if k \<in> set bs then a else 0)"
  by (induction bs) auto

lemma sum_over_groups:
  assumes "distinct bs"
  shows "(\<Sum>b\<leftarrow>bs. sum_list (map f (filter (\<lambda>r. k r = b) df))) =
         (sum_list (map f (filter (\<lambda>r. k r \<in> set bs) df)) :: rat)"
proof (induction df)
  case Nil
  then show ?case by simp
next
  case (Cons r rs)
  have "(\<Sum>b\<leftarrow>bs. sum_list (map f (filter (\<lambda>r. k r = b) (r # rs)))) =
        (\<Sum>b\<leftarrow>bs. (if k r = b then f r else 0) + sum_list (map f (filter (\<lambda>r. k r = b) rs)))"
    by (rule arg_cong [of _ _ sum_list]) (rule map_cong, simp_all)
  also have "\<dots> = (\<Sum>b\<leftarrow>bs. if k r = b then f r else 0) +
                  (\<Sum>b\<leftarrow>bs. sum_list (map f (filter (\<lambda>r. k r = b) rs)))"
    by (simp add: sum_list_addf)
  also have "\<dots> = (if k r \<in> set bs then f r else 0) +
                  sum_list (map f (filter (\<lambda>r. k r \<in> set bs) rs))"
    using assms by (simp only: sum_list_delta Cons.IH)
  finally show ?case by simp
qed


lemma sum_list_insort_key:
  "sum_list (map g (insort_key f x xs)) = (g x :: rat) + sum_list (map g xs)"
  by (induction xs) auto

lemma sum_list_sort_key:
  "sum_list (map g (sort_key f xs)) = (sum_list (map g xs) :: rat)"
  by (induction xs) (auto simp: sum_list_insort_key)

lemma set_group_keys:
  "c \<in> set (group_keys df) \<longleftrightarrow> (\<exists>r \<in> set df. Product_Category r = Some c)"
proof
  assume "c \<in> set (group_keys df)"
  then show "\<exists>r \<in> set df. Product_Category r = Some c"
    by (auto simp: group_keys_def List.map_filter_def)
next
  assume "\<exists>r \<in> set df. Product_Category r = Some c"
  then obtain r where "r \<in> set df" "Product_Category r = Some c" by blast
  then have "c \<in> (\<lambda>r. the (Product_Category r)) ` {r \<in> set df. Product_Category r \<noteq> None}"
    by force
  then show "c \<in> set (group_keys df)"
    by (simp add: group_keys_def List.map_filter_def comp_def)
qed

lemma distinct_group_keys: "distinct (group_keys df)"
  by (simp add: group_keys_def)

lemma groupby_sum_total: "sum_list (map snd (groupby_sum df)) = categorised_total df"
proof -
  let ?bs = "map Some (group_keys df)"
  have d: "distinct ?bs" by (simp add: distinct_map distinct_group_keys)
  have "sum_list (map snd (groupby_sum df)) =
        (\<Sum>b\<leftarrow>?bs. sum_list (map Total_Sales_INR (filter (\<lambda>r. Product_Category r = b) df)))"
    by (simp add: groupby_sum_def group_sum_def comp_def)
  also have "\<dots> = sum_list (map Total_Sales_INR (filter (\<lambda>r. Product_Category r \<in> set ?bs) df))"
    using d by (rule sum_over_groups)
  also have "filter (\<lambda>r. Product_Category r \<in> set ?bs) df =
             filter (\<lambda>r. Product_Category r \<noteq> None) df"
  proof (rule filter_cong)
    fix r assume "r \<in> set df"
    show "(Product_Category r \<in> set ?bs) = (Product_Category r \<noteq> None)"
    proof (cases "Product_Category r")
      case None
      then show ?thesis by auto
    next
      case (Some c)
      with \<open>r \<in> set df\<close> have "c \<in> set (group_keys df)"
        unfolding set_group_keys by blast
      with Some show ?thesis by simp
    qed
  qed simp
  finally show ?thesis by (simp add: categorised_total_def)
qed

lemma category_sales_total: "sum_list (map snd (category_sales df)) = categorised_total df"
  by (simp add: category_sales_def sort_values_desc_def sum_list_sort_key groupby_sum_total)



section \<open>Totals\<close>






section \<open>Category shares\<close>

lemmas category_eval =
  category_sales_def sort_values_desc_def groupby_sum_def group_keys_def group_sum_def
  category_share_def share_def

lemma finite_values_shares:
  "t \<noteq> 0 \<Longrightarrow>
     finite_values (map snd (map (\<lambda>p. (fst p, share (snd p) t)) cs)) =
       Some (map (\<lambda>p. snd p / t * 100) cs)"
  by (induction cs) (simp_all add: share_def)

lemma sum_list_shares:
  "t \<noteq> 0 \<Longrightarrow> sum_list (map (\<lambda>p. snd p / t * 100) cs) = sum_list (map snd cs) / t * (100::rat)"
  by (induction cs) (simp_all add: field_simps)


lemma category_sales_two_category:
  "category_sales two_category_frame = [(''A'', 600), (''B'', 400)]"
  by (simp add: two_category_frame_def category_eval)

text \<open>
  C6, as the script has it: whenever the sums of the category aggregate have a total
  other than zero, every share is the finite number sum / total * 100 and the shares add
  up to exactly 100. The total is the grand total when every retained row has a category.
  With total zero the division of line 107 gives NaN or an infinity for every share.
\<close>

theorem category_shares_sum_to_100:
  assumes "sum_list (map snd (category_sales df)) \<noteq> 0"
  shows "shares_total (category_share (category_sales df)) = Some 100 \<and>
         map snd (category_share (category_sales df)) =
           map (\<lambda>p. Finite (snd p / sum_list (map snd (category_sales df)) * 100)) (category_sales df) \<and>
         (list_all (\<lambda>r. Product_Category r \<noteq> None) df \<longrightarrow>
            sum_list (map snd (category_sales df)) = grand_total df)"
proof -
  let ?cs = "category_sales df"
  let ?t = "sum_list (map snd ?cs)"
  have "finite_values (map snd (category_share ?cs)) = Some (map (\<lambda>p. snd p / ?t * 100) ?cs)"
    unfolding category_share_def using assms by (rule finite_values_shares)
  then have "shares_total (category_share ?cs) = Some (sum_list (map (\<lambda>p. snd p / ?t * 100) ?cs))"
    by (simp only: shares_total_def option.map)
  also have "sum_list (map (\<lambda>p. snd p / ?t * 100) ?cs) = ?t / ?t * 100"
    using assms by (rule sum_list_shares)
  also have "?t / ?t * 100 = 100"
    using assms by simp
  finally have total: "shares_total (category_share ?cs) = Some 100" .
  have each: "map snd (category_share ?cs) = map (\<lambda>p. Finite (snd p / ?t * 100)) ?cs"
    using assms by (simp add: category_share_def share_def)
  have "?t = grand_total df" if "list_all (\<lambda>r. Product_Category r \<noteq> None) df"
  proof -
    from that have "filter (\<lambda>r. Product_Category r \<noteq> None) df = df"
      by (simp add: list_all_iff)
    then show ?thesis
      by (simp add: category_sales_total categorised_total_def grand_total_def)
  qed
  with total each show ?thesis by blast
qed

theorem category_shares_sum_to_100_witness:
  "sum_list (map snd (category_sales two_category_frame)) \<noteq> 0 \<and>
   shares_total (category_share (category_sales two_category_frame)) = Some 100 \<and>
   category_share (category_sales two_category_frame) = [(''A'', Finite 60), (''B'', Finite 40)]"
proof -
  have t: "sum_list (map snd (category_sales two_category_frame)) \<noteq> 0"
    by (simp add: category_sales_two_category)
  have "category_share (category_sales two_category_frame) = [(''A'', Finite 60), (''B'', Finite 40)]"
    by (simp add: category_sales_two_category category_share_def share_def)
  with category_shares_sum_to_100 [OF t] t show ?thesis by blast
qed

theorem zero_total_shares_counterexample:
  "prepare zero_total_csv = Inr zero_total_frame \<and> length zero_total_frame = 1 \<and>
   category_share (category_sales zero_total_frame) = [(''A'', NaN)] \<and>
   shares_total (category_share (category_sales zero_total_frame)) \<noteq> Some 100"
  by (simp add: prepare_zero_total zero_total_frame_def category_eval shares_total_def)

section \<open>Order of the categories\<close>




section \<open>Day numbers of consecutive days\<close>

lemma div_pred:
  fixes z n :: int
  assumes "0 < n"
  shows "z div n = (z - 1) div n + (if z mod n = 0 then 1 else 0)"
proof (cases "z mod n = 0")
  case True
  have "z - 1 = n * (z div n - 1) + (n - 1)"
    using True by (simp add: algebra_simps) (metis mult.commute mult_div_mod_eq add.right_neutral)
  then have "(z - 1) div n = z div n - 1"
    by (rule int_div_pos_eq) (use assms in simp_all)
  with True show ?thesis by simp
next
  case False
  have "0 \<le> z mod n" "z mod n < n" using assms by simp_all
  with False have r: "0 \<le> z mod n - 1" "z mod n - 1 < n" by linarith+
  have "z - 1 = n * (z div n) + (z mod n - 1)"
    by (simp add: algebra_simps)
  then have "(z - 1) div n = z div n"
    by (rule int_div_pos_eq) (use r in simp_all)
  with False show ?thesis by simp
qed

lemma days_before_next_month:
  assumes "1 \<le> m" "m < 12"
  shows "days_before_month y (m + 1) = days_before_month y m + int (days_in_month y m)"
proof -
  from assms have "m = 1 \<or> m = 2 \<or> m = 3 \<or> m = 4 \<or> m = 5 \<or> m = 6 \<or> m = 7 \<or> m = 8 \<or>
      m = 9 \<or> m = 10 \<or> m = 11" by presburger
  then show ?thesis
    by (elim disjE) (simp_all add: days_before_month_def days_in_month_def month_lengths_def)
qed

lemma leap_int:
  "is_leap y \<longleftrightarrow> (int y mod 4 = 0 \<and> (int y mod 100 \<noteq> 0 \<or> int y mod 400 = 0))"
proof -
  have "int y mod 4 = int (y mod 4)" "int y mod 100 = int (y mod 100)"
    "int y mod 400 = int (y mod 400)"
    by (simp_all add: zmod_int)
  then show ?thesis by (simp add: is_leap_def)
qed

lemma days_before_next_year:
  "days_before_year (y + 1) = days_before_year y + 365 + (if is_leap y then 1 else 0)"
proof -
  define z where "z = int y"
  define a4 :: int where "a4 = (if z mod 4 = 0 then 1 else 0)"
  define a100 :: int where "a100 = (if z mod 100 = 0 then 1 else 0)"
  define a400 :: int where "a400 = (if z mod 400 = 0 then 1 else 0)"
  define l :: int where "l = (if is_leap y then 1 else 0)"
  have d4: "z div 4 = (z - 1) div 4 + a4"
    unfolding a4_def by (rule div_pred) simp
  have d100: "z div 100 = (z - 1) div 100 + a100"
    unfolding a100_def by (rule div_pred) simp
  have d400: "z div 400 = (z - 1) div 400 + a400"
    unfolding a400_def by (rule div_pred) simp
  have m1: "z mod 100 = 0" if "z mod 400 = 0"
  proof -
    have "z mod 400 mod 100 = z mod 100" by (rule mod_mod_cancel) simp
    with that show ?thesis by simp
  qed
  have m2: "z mod 4 = 0" if "z mod 100 = 0"
  proof -
    have "z mod 100 mod 4 = z mod 4" by (rule mod_mod_cancel) simp
    with that show ?thesis by simp
  qed
  have leap: "a4 - a100 + a400 = l"
  proof (cases "z mod 4 = 0")
    case False
    with m1 m2 show ?thesis
      by (auto simp: a4_def a100_def a400_def l_def leap_int z_def)
  next
    case four: True
    show ?thesis
    proof (cases "z mod 100 = 0")
      case False
      with four m1 show ?thesis
        by (auto simp: a4_def a100_def a400_def l_def leap_int z_def)
    next
      case True
      with four show ?thesis
        by (simp add: a4_def a100_def a400_def l_def leap_int z_def)
    qed
  qed
  have "z * 365 + z div 4 - z div 100 + z div 400 =
        (z - 1) * 365 + (z - 1) div 4 - (z - 1) div 100 + (z - 1) div 400 + 365 + l"
  proof -
    have "z * 365 + A - B + C = (z - 1) * 365 + D - E + F + 365 + (a - b + c)"
      if "A = D + a" "B = E + b" "C = F + c" for A B C D E F a b c :: int
      using that by (simp add: algebra_simps)
    from this [OF d4 d100 d400] leap show ?thesis by simp
  qed
  then show ?thesis
    by (simp add: days_before_year_def z_def l_def Let_def)
qed

lemma toordinal_next_day:
  assumes "1 \<le> month d" "month d \<le> 12" "1 \<le> day d" "day d \<le> days_in_month (year d) (month d)"
  shows "toordinal (next_day d) = toordinal d + 1"
proof (cases "day d < days_in_month (year d) (month d)")
  case True
  then show ?thesis by (simp add: next_day_def toordinal_def)
next
  case last: False
  with assms have day: "day d = days_in_month (year d) (month d)" by simp
  show ?thesis
  proof (cases "month d < 12")
    case True
    with last assms days_before_next_month [of "month d" "year d"] day show ?thesis
      by (simp add: next_day_def toordinal_def)
  next
    case False
    with assms have m: "month d = 12" by simp
    with day have "day d = 31" by (simp add: days_in_month_def month_lengths_def)
    with m last days_before_next_year [of "year d"] show ?thesis
      by (simp add: next_day_def toordinal_def days_before_month_def month_lengths_def)
  qed
qed
section \<open>Gaps in the resampled series\<close>

lemma bucket_sum_empty:
  assumes "list_all (\<lambda>k. k \<noteq> b) (dated_keys key df)"
  shows "sum_list (map Total_Sales_INR (filter (\<lambda>r. map_option key (Date r) = Some b) df)) = 0"
proof -
  have "map_option key (Date r) \<noteq> Some b" if "r \<in> set df" for r
  proof
    assume "map_option key (Date r) = Some b"
    with that have "b \<in> set (dated_keys key df)"
      unfolding set_dated_keys by blast
    with assms show False by (auto simp: list_all_iff)
  qed
  then have "filter (\<lambda>r. map_option key (Date r) = Some b) df = []"
    by (simp add: filter_empty_conv)
  then show ?thesis by simp
qed

lemma dated_keys_nonempty:
  assumes "list_ex (\<lambda>r. Date r \<noteq> None) df"
  shows "dated_keys key df \<noteq> []"
proof -
  from assms obtain r d where "r \<in> set df" "Date r = Some d"
    by (auto simp: list_ex_iff)
  then have "key d \<in> set (dated_keys key df)"
    unfolding set_dated_keys by force
  then show ?thesis by auto
qed

lemma resample_sum_zero_filled:
  assumes "list_ex (\<lambda>r. Date r \<noteq> None) df"
  shows "zero_filled key df (resample_sum key df)"
proof -
  have ne: "dated_keys key df \<noteq> []"
    using assms by (rule dated_keys_nonempty)
  let ?lo = "Min (set (dated_keys key df))" and ?hi = "Max (set (dated_keys key df))"
  have keys: "map fst (resample_sum key df) = [?lo..?hi]"
    unfolding resample_sum_eq [OF ne] by (simp add: comp_def)
  have vals: "list_all
        (\<lambda>p. snd p =
                sum_list (map Total_Sales_INR
                  (filter (\<lambda>r. map_option key (Date r) = Some (fst p)) df)) \<and>
             (list_all (\<lambda>k. k \<noteq> fst p) (dated_keys key df) \<longrightarrow> snd p = 0))
        (resample_sum key df)"
    unfolding list_all_iff
  proof
    fix p assume "p \<in> set (resample_sum key df)"
    then obtain b where p: "p = (b, bucket_sum key df b)"
      unfolding resample_sum_eq [OF ne] by auto
    have s: "snd p =
        sum_list (map Total_Sales_INR
          (filter (\<lambda>r. map_option key (Date r) = Some (fst p)) df))"
      unfolding p fst_conv snd_conv bucket_sum_def by (rule refl)
    have z: "snd p = 0" if "\<forall>k \<in> set (dated_keys key df). k \<noteq> fst p"
      unfolding s using that by (intro bucket_sum_empty) (simp add: list_all_iff)
    from s z show "snd p =
        sum_list (map Total_Sales_INR
          (filter (\<lambda>r. map_option key (Date r) = Some (fst p)) df)) \<and>
        ((\<forall>k \<in> set (dated_keys key df). k \<noteq> fst p) \<longrightarrow> snd p = 0)"
      by blast
  qed
  from keys vals show ?thesis unfolding zero_filled_def by blast
qed

text \<open>
  C10: for a frame with at least one dated row, the daily aggregate has exactly one entry
  for each day number from that of the earliest date to that of the latest date, in
  ascending order, each entry holding the sum of the amounts of its day, which is 0 for
  a day without rows; the monthly and the quarterly aggregate have the same shape over
  the months and the quarters, and labelling the buckets leaves the sums as they are.
  Day numbers count calendar days: the day after a date that \<open>pd.to_datetime\<close> accepts
  has the next day number.
\<close>

theorem resampled_gaps_zero_filled:
  assumes "list_ex (\<lambda>r. Date r \<noteq> None) df"
  shows "zero_filled toordinal df (daily_sales df) \<and>
         zero_filled month_index df (monthly_sales df) \<and>
         zero_filled quarter_index df (quarterly_sales df) \<and>
         map snd (monthly_labelled df) = map snd (monthly_sales df) \<and>
         map snd (quarterly_labelled df) = map snd (quarterly_sales df) \<and>
         (valid_timestamp d \<longrightarrow> toordinal (next_day d) = toordinal d + 1)"
proof -
  have "toordinal (next_day d) = toordinal d + 1" if "valid_timestamp d"
    using that by (intro toordinal_next_day) (simp_all add: valid_timestamp_def)
  with assms show ?thesis
    by (simp add: daily_sales_def monthly_sales_def quarterly_sales_def resample_sum_zero_filled
        monthly_labelled_def quarterly_labelled_def comp_def)
qed

lemmas calendar_eval =
  toordinal_def days_before_year_def days_before_month_def month_lengths_def is_leap_def
  month_index_def quarter_index_def

lemma gap_months_aggregates:
  "monthly_labelled gap_months_frame =
     [(''2025-01'', 100), (''2025-02'', 0), (''2025-03'', 0), (''2025-04'', 0),
      (''2025-05'', 0), (''2025-06'', 0), (''2025-07'', 50)]"
  "quarterly_labelled gap_months_frame = [(''2025Q1'', 100), (''2025Q2'', 0), (''2025Q3'', 50)]"
proof -
  have m: "monthly_sales gap_months_frame =
     [(24300, 100), (24301, 0), (24302, 0), (24303, 0), (24304, 0), (24305, 0), (24306, 50)]"
    by (simp add: monthly_sales_def resample_sum_def dated_keys_Nil dated_keys_Cons
        bucket_sum_def gap_months_frame_def month_index_def)
  have q: "quarterly_sales gap_months_frame = [(8100, 100), (8101, 0), (8102, 50)]"
    by (simp add: quarterly_sales_def resample_sum_def dated_keys_Nil dated_keys_Cons
        bucket_sum_def gap_months_frame_def quarter_index_def)
  have ml: "map month_label [24300, 24301, 24302, 24303, 24304, 24305, 24306] =
     [''2025-01'', ''2025-02'', ''2025-03'', ''2025-04'', ''2025-05'', ''2025-06'', ''2025-07'']"
    by code_simp
  have ql: "map quarter_label [8100, 8101, 8102] = [''2025Q1'', ''2025Q2'', ''2025Q3'']"
    by code_simp
  show "monthly_labelled gap_months_frame =
     [(''2025-01'', 100), (''2025-02'', 0), (''2025-03'', 0), (''2025-04'', 0),
      (''2025-05'', 0), (''2025-06'', 0), (''2025-07'', 50)]"
    unfolding monthly_labelled_def m using ml by simp
  show "quarterly_labelled gap_months_frame = [(''2025Q1'', 100), (''2025Q2'', 0), (''2025Q3'', 50)]"
    unfolding quarterly_labelled_def q using ql by simp
qed

theorem resampled_gaps_zero_filled_witness:
  "list_ex (\<lambda>r. Date r \<noteq> None) gap_days_frame \<and>
   zero_filled toordinal gap_days_frame (daily_sales gap_days_frame) \<and>
   daily_sales gap_days_frame = [(739281, 100), (739282, 0), (739283, 0), (739284, 50)] \<and>
   toordinal \<lparr>year = 2025, month = 1, day = 30\<rparr> = 739281 \<and>
   toordinal \<lparr>year = 2025, month = 2, day = 2\<rparr> = 739284 \<and>
   list_ex (\<lambda>r. Date r \<noteq> None) gap_months_frame \<and>
   zero_filled month_index gap_months_frame (monthly_sales gap_months_frame) \<and>
   zero_filled quarter_index gap_months_frame (quarterly_sales gap_months_frame) \<and>
   monthly_labelled gap_months_frame =
     [(''2025-01'', 100), (''2025-02'', 0), (''2025-03'', 0), (''2025-04'', 0),
      (''2025-05'', 0), (''2025-06'', 0), (''2025-07'', 50)] \<and>
   quarterly_labelled gap_months_frame = [(''2025Q1'', 100), (''2025Q2'', 0), (''2025Q3'', 50)] \<and>
   valid_timestamp \<lparr>year = 2025, month = 1, day = 31\<rparr> \<and>
   toordinal (next_day \<lparr>year = 2025, month = 1, day = 31\<rparr>) =
     toordinal \<lparr>year = 2025, month = 1, day = 31\<rparr> + 1"
proof -
  have v: "valid_timestamp \<lparr>year = 2025, month = 1, day = 31\<rparr>"
    by (simp add: valid_timestamp_def date_le_def days_in_month_def month_lengths_def)
  have ne: "list_ex (\<lambda>r. Date r \<noteq> None) gap_days_frame"
    by (simp add: gap_days_frame_def)
  have ne': "list_ex (\<lambda>r. Date r \<noteq> None) gap_months_frame"
    by (simp add: gap_months_frame_def)
  have "daily_sales gap_days_frame = [(739281, 100), (739282, 0), (739283, 0), (739284, 50)]"
    by (simp add: daily_sales_def resample_sum_def dated_keys_Nil dated_keys_Cons bucket_sum_def
        gap_days_frame_def calendar_eval)
  moreover have "toordinal \<lparr>year = 2025, month = 1, day = 30\<rparr> = 739281"
    "toordinal \<lparr>year = 2025, month = 2, day = 2\<rparr> = 739284"
    by (simp_all add: calendar_eval)
  ultimately show ?thesis
    using resampled_gaps_zero_filled [OF ne, of "\<lparr>year = 2025, month = 1, day = 31\<rparr>"]
      resampled_gaps_zero_filled [OF ne', of "\<lparr>year = 2025, month = 1, day = 31\<rparr>"]
      ne ne' v gap_months_aggregates
    by blast
qed

end
